theory Spec2Isabelle
  imports Complex_Main "HOL-Library.Char_ord" "HOL-Library.List_Lexorder"
begin

section \<open>Numbers, errors and tensors\<close>

text \<open>
  A JavaScript number is modelled as \<open>NaN\<close> or an exact real \<open>Num x\<close>: rounding of
  doubles and the two infinities are outside the model. Tensor entries of the
  evaluator (float32 probabilities and labels) are exact reals.
\<close>

datatype jsnum = NaN | Num real

text \<open>Everything the two classes throw, and what the tensor library throws.\<close>

datatype error =
    NoValidRows          \<comment> \<open>\<open>Error("No valid rows in CSV")\<close>\<close>
  | NoDataLoaded         \<comment> \<open>\<open>Error("No data loaded. ...")\<close>\<close>
  | NoValidSamples       \<comment> \<open>\<open>Error("No valid sliding-window samples ...")\<close>\<close>
  | ModelNotBuilt        \<comment> \<open>\<open>Error("Model not built.")\<close>\<close>
  | TypeError            \<comment> \<open>a property read on \<open>undefined\<close>\<close>
  | TfError              \<comment> \<open>an \<open>Error\<close> raised inside the tensor library\<close>

text \<open>
  A tensor of the library: its shape and its values in row-major order. A tensor the
  library hands out holds as many values as its shape says.
\<close>

record 'a tensor =
  shape :: "nat list"
  vals :: "'a list"

definition wf_tensor :: "'a tensor \<Rightarrow> bool" where
  "wf_tensor t = (length (vals t) = prod_list (shape t))"

text \<open>\<open>x.greater(tf.scalar(c))\<close>: elementwise strict comparison.\<close>

definition tf_greater :: "real tensor \<Rightarrow> real \<Rightarrow> bool tensor" where
  "tf_greater t c = \<lparr>shape = shape t, vals = map (\<lambda>v. c < v) (vals t)\<rparr>"

text \<open>\<open>toInt\<close> of a boolean tensor: true is 1, false is 0.\<close>

definition toInt_bool :: "bool tensor \<Rightarrow> int tensor" where
  "toInt_bool t = \<lparr>shape = shape t, vals = map (\<lambda>b. if b then 1 else 0) (vals t)\<rparr>"

text \<open>\<open>toInt\<close> of a float tensor truncates towards zero.\<close>

definition trunc :: "real \<Rightarrow> int" where
  "trunc x = (if 0 \<le> x then \<lfloor>x\<rfloor> else \<lceil>x\<rceil>)"

definition toInt :: "real tensor \<Rightarrow> int tensor" where
  "toInt t = \<lparr>shape = shape t, vals = map trunc (vals t)\<rparr>"

text \<open>\<open>toFloat\<close> of a boolean tensor.\<close>

definition toFloat_bool :: "bool tensor \<Rightarrow> real tensor" where
  "toFloat_bool t = \<lparr>shape = shape t, vals = map (\<lambda>b. if b then 1 else 0) (vals t)\<rparr>"

text \<open>
  \<open>x.reshape(shp)\<close> keeps the values and throws unless the new shape has the size of
  the old one.
\<close>

definition tf_reshape :: "'a tensor \<Rightarrow> nat list \<Rightarrow> error + 'a tensor" where
  "tf_reshape t shp =
     (if prod_list shp = prod_list (shape t) then Inr \<lparr>shape = shp, vals = vals t\<rparr>
      else Inl TfError)"

text \<open>\<open>a.equal(b)\<close> on two tensors of one shape (the only use in the source).\<close>

definition tf_equal :: "int tensor \<Rightarrow> int tensor \<Rightarrow> bool tensor" where
  "tf_equal a b = \<lparr>shape = shape a, vals = map2 (\<lambda>x y. x = y) (vals a) (vals b)\<rparr>"

text \<open>
  \<open>mean\<close> divides every entry by the number of entries reduced and sums the
  quotients, so the mean over no entries is 0. Three uses: over axes 0 and 2 of a
  rank-3 tensor, over all entries, and over axis 2.
\<close>

definition tf_mean_0_2 :: "real tensor \<Rightarrow> error + real list" where
  "tf_mean_0_2 c =
     (case shape c of
        [N, S, h] \<Rightarrow>
          Inr (map (\<lambda>s. \<Sum>n\<leftarrow>[0..<N]. \<Sum>k\<leftarrow>[0..<h].
                          vals c ! ((n * S + s) * h + k) / real (N * h)) [0..<S])
      | _ \<Rightarrow> Inl TfError)"

definition tf_mean :: "real tensor \<Rightarrow> real" where
  "tf_mean c = (\<Sum>v\<leftarrow>vals c. v / real (prod_list (shape c)))"

definition tf_mean_2 :: "int tensor \<Rightarrow> error + real tensor" where
  "tf_mean_2 c =
     (case shape c of
        [N, S, h] \<Rightarrow>
          Inr \<lparr>shape = [N, S],
               vals = concat (map (\<lambda>n. map (\<lambda>s. \<Sum>k\<leftarrow>[0..<h].
                          real_of_int (vals c ! ((n * S + s) * h + k)) / real h) [0..<S]) [0..<N])\<rparr>
      | _ \<Rightarrow> Inl TfError)"

text \<open>\<open>x.transpose([1,0])\<close> of a matrix.\<close>

definition tf_transpose :: "'a tensor \<Rightarrow> error + 'a tensor" where
  "tf_transpose t =
     (case shape t of
        [N, S] \<Rightarrow>
          Inr \<lparr>shape = [S, N],
               vals = concat (map (\<lambda>s. map (\<lambda>n. vals t ! (n * S + s)) [0..<N]) [0..<S])\<rparr>
      | _ \<Rightarrow> Inl TfError)"

text \<open>\<open>arraySync\<close> of a matrix and of a rank-3 tensor: nested arrays.\<close>

definition arraySync2 :: "'a tensor \<Rightarrow> error + 'a list list" where
  "arraySync2 t =
     (case shape t of
        [R, C] \<Rightarrow> Inr (map (\<lambda>i. map (\<lambda>j. vals t ! (i * C + j)) [0..<C]) [0..<R])
      | _ \<Rightarrow> Inl TfError)"

definition arraySync3 :: "'a tensor \<Rightarrow> error + 'a list list list" where
  "arraySync3 t =
     (case shape t of
        [N, S, h] \<Rightarrow>
          Inr (map (\<lambda>n. map (\<lambda>s. map (\<lambda>k. vals t ! ((n * S + s) * h + k)) [0..<h]) [0..<S]) [0..<N])
      | _ \<Rightarrow> Inl TfError)"

section \<open>The evaluator (gru.js)\<close>

text \<open>
  \<open>predict\<close>: the network is an opaque function from the input batch to a tensor of
  probabilities; \<open>None\<close> is the model that has not been built.
\<close>

definition predict :: "('x \<Rightarrow> real tensor) option \<Rightarrow> 'x \<Rightarrow> error + real tensor" where
  "predict model X = (case model of None \<Rightarrow> Inl ModelNotBuilt | Some net \<Rightarrow> Inr (net X))"

text \<open>\<open>computePerStockAccuracy(y_true, y_pred, S, h)\<close>: \<open>(perStockAcc, overallAcc)\<close>.\<close>

definition computePerStockAccuracy ::
  "real tensor \<Rightarrow> real tensor \<Rightarrow> nat \<Rightarrow> nat \<Rightarrow> error + (real list \<times> real)" where
  "computePerStockAccuracy y_true y_pred S h =
     (let predsBin = toInt_bool (tf_greater y_pred (1/2));
          truths = toInt y_true
      in case shape predsBin of
           [] \<Rightarrow> Inl TfError
         | samples # _ \<Rightarrow>
             (case tf_reshape predsBin [samples, S, h] of
                Inl e \<Rightarrow> Inl e
              | Inr preds3 \<Rightarrow>
                  (case tf_reshape truths [samples, S, h] of
                     Inl e \<Rightarrow> Inl e
                   | Inr truths3 \<Rightarrow>
                       (let correct = toFloat_bool (tf_equal preds3 truths3)
                        in case tf_mean_0_2 correct of
                             Inl e \<Rightarrow> Inl e
                           | Inr perStockAcc \<Rightarrow> Inr (perStockAcc, tf_mean correct)))))"

record evalResult =
  perStockAcc :: "real list"
  overallAcc :: real
  perStockTimeline :: "int list list"
  predArr :: "int list list list"
  truthArr :: "int list list list"

text \<open>\<open>evaluateTestSet(X_test, y_test, symbols, horizon)\<close>.\<close>

definition evaluateTestSet ::
  "('x \<Rightarrow> real tensor) option \<Rightarrow> 'x \<Rightarrow> real tensor \<Rightarrow> string list \<Rightarrow> nat
     \<Rightarrow> error + evalResult" where
  "evaluateTestSet model X_test y_test symbols horizon =
     (let S = length symbols
      in case predict model X_test of
           Inl e \<Rightarrow> Inl e
         | Inr preds \<Rightarrow>
      (case shape preds of
           [] \<Rightarrow> Inl TfError
         | samples # _ \<Rightarrow>
      (let predsBin = toInt_bool (tf_greater preds (1/2));
           truths = toInt y_test
       in case tf_reshape predsBin [samples, S, horizon] of
            Inl e \<Rightarrow> Inl e
          | Inr preds3 \<Rightarrow>
      (case tf_reshape truths [samples, S, horizon] of
            Inl e \<Rightarrow> Inl e
          | Inr truths3 \<Rightarrow>
      (let correctPerHorizon = toInt_bool (tf_equal preds3 truths3)
       in case tf_mean_2 correctPerHorizon of
            Inl e \<Rightarrow> Inl e
          | Inr correctPerSamplePerStock \<Rightarrow>
      (let timelineBinary = toInt_bool (tf_greater correctPerSamplePerStock (1/2))
       in case tf_transpose timelineBinary of
            Inl e \<Rightarrow> Inl e
          | Inr cp \<Rightarrow>
      (case arraySync2 cp of
            Inl e \<Rightarrow> Inl e
          | Inr cpArr \<Rightarrow>
      (let timeline = map (\<lambda>s. cpArr ! s) [0..<S]
       in case computePerStockAccuracy y_test preds S horizon of
            Inl e \<Rightarrow> Inl e
          | Inr (accs, overall) \<Rightarrow>
      (case arraySync3 preds3 of
            Inl e \<Rightarrow> Inl e
          | Inr predA \<Rightarrow>
      (case arraySync3 truths3 of
            Inl e \<Rightarrow> Inl e
          | Inr truthA \<Rightarrow>
              Inr \<lparr>perStockAcc = accs, overallAcc = overall, perStockTimeline = timeline,
                   predArr = predA, truthArr = truthA\<rparr>))))))))))"

section \<open>The loader (data-loader.js)\<close>

subsection \<open>Numbers\<close>

text \<open>
  \<open>Number.isNaN\<close>, \<open>>\<close>, \<open>===\<close>, \<open>+\<close>, \<open>-\<close> and \<open>/\<close> on numbers. A comparison with
  \<open>NaN\<close> is false and arithmetic on \<open>NaN\<close> is \<open>NaN\<close>. Where the source would produce
  an infinity (a division by zero, \<open>Math.min\<close> and \<open>Math.max\<close> of no arguments) the
  model, which has no infinities, yields \<open>NaN\<close>; the loader reaches none of these
  (lemmas \<open>loaded_series_present\<close> and \<open>bumped_max_greater\<close> below).
\<close>

fun isNaN :: "jsnum \<Rightarrow> bool" where
  "isNaN NaN = True"
| "isNaN (Num x) = False"

fun jgt :: "jsnum \<Rightarrow> jsnum \<Rightarrow> bool" where
  "jgt (Num a) (Num b) = (b < a)"
| "jgt _ _ = False"

fun jeq :: "jsnum \<Rightarrow> jsnum \<Rightarrow> bool" where
  "jeq (Num a) (Num b) = (a = b)"
| "jeq _ _ = False"

fun jadd :: "jsnum \<Rightarrow> jsnum \<Rightarrow> jsnum" where
  "jadd (Num a) (Num b) = Num (a + b)"
| "jadd _ _ = NaN"

fun jsub :: "jsnum \<Rightarrow> jsnum \<Rightarrow> jsnum" where
  "jsub (Num a) (Num b) = Num (a - b)"
| "jsub _ _ = NaN"

fun jdiv :: "jsnum \<Rightarrow> jsnum \<Rightarrow> jsnum" where
  "jdiv (Num a) (Num b) = (if b = 0 then NaN else Num (a / b))"
| "jdiv _ _ = NaN"

fun jmin :: "jsnum \<Rightarrow> jsnum \<Rightarrow> jsnum" where
  "jmin (Num a) (Num b) = Num (min a b)"
| "jmin _ _ = NaN"

fun jmax :: "jsnum \<Rightarrow> jsnum \<Rightarrow> jsnum" where
  "jmax (Num a) (Num b) = Num (max a b)"
| "jmax _ _ = NaN"

fun Math_min :: "jsnum list \<Rightarrow> jsnum" where
  "Math_min [] = NaN"
| "Math_min (x # xs) = fold jmin xs x"

fun Math_max :: "jsnum list \<Rightarrow> jsnum" where
  "Math_max [] = NaN"
| "Math_max (x # xs) = fold jmax xs x"

subsection \<open>State\<close>

text \<open>
  A row after the alias map of \<open>loadFromCSVText\<close> (\<open>{Date, Symbol, Open, Close}\<close>), a
  slot of a symbol's series (\<open>{date, open, close}\<close>, the fields prefixed here since
  \<open>open\<close> is a constant of the library; a missing day has \<open>NaN\<close> twice), the
  normalizer of a symbol, and the messages passed to \<open>this.log\<close>. The model of
  \<open>loadFromCSVText\<close> starts from the rows after the alias map: reading the CSV text
  is the parser's work.
\<close>

record row =
  Date :: string
  Symbol :: string
  Open :: jsnum
  Close :: jsnum

record slot =
  s_date :: string
  s_open :: jsnum
  s_close :: jsnum

record normalizer =
  openMin :: jsnum
  openMax :: jsnum
  closeMin :: jsnum
  closeMax :: jsnum

datatype logmsg =
    LogWarning nat         \<comment> \<open>\<open>Warning: found n distinct symbols (expected 10).\<close>\<close>
  | LogParsed nat nat nat  \<comment> \<open>\<open>Parsed r rows. Symbols: s. Dates: d.\<close>\<close>
  | LogPrepared nat int int \<comment> \<open>\<open>Prepared dataset. Total samples: t. Train: a. Test: b.\<close>\<close>

text \<open>
  The object handed to the constructor. The constructor destructures
  \<open>sequenceLength\<close> and \<open>forecastHorizon\<close> only, so any other key of the object, such
  as \<open>expectedSymbolCount\<close>, is dropped. The window length and the horizon are
  counts, hence natural numbers.
\<close>

record config =
  opt_sequenceLength :: "nat option"
  opt_forecastHorizon :: "nat option"
  opt_expectedSymbolCount :: "nat option"

record loader =
  sequenceLength :: nat
  forecastHorizon :: nat
  raw :: "row list option"
  symbols :: "string list"
  dates :: "string list"
  perSymbolSeries :: "string \<rightharpoonup> slot list"
  normalizers :: "string \<rightharpoonup> normalizer"
  X_train :: "jsnum list list list option"
  y_train :: "int list list option"
  X_test :: "jsnum list list list option"
  y_test :: "int list list option"
  trainIndices :: "(int \<times> int) option"
  testIndices :: "(int \<times> int) option"
  sampleDates :: "string list option"
  sampleDatesTrain :: "string list option"
  sampleDatesTest :: "string list option"
  logged :: "logmsg list"

definition DataLoader :: "config \<Rightarrow> loader" where
  "DataLoader cfg =
     \<lparr>sequenceLength = (case opt_sequenceLength cfg of None \<Rightarrow> 12 | Some v \<Rightarrow> v),
      forecastHorizon = (case opt_forecastHorizon cfg of None \<Rightarrow> 3 | Some v \<Rightarrow> v),
      raw = None, symbols = [], dates = [],
      perSymbolSeries = Map.empty, normalizers = Map.empty,
      X_train = None, y_train = None, X_test = None, y_test = None,
      trainIndices = None, testIndices = None,
      sampleDates = None, sampleDatesTrain = None, sampleDatesTest = None,
      logged = []\<rparr>"

subsection \<open>loadFromCSVText\<close>

definition validRow :: "row \<Rightarrow> bool" where
  "validRow r = (Date r \<noteq> [] \<and> Symbol r \<noteq> [] \<and> \<not> isNaN (Open r) \<and> \<not> isNaN (Close r))"

definition isSpace :: "char \<Rightarrow> bool" where
  "isSpace c = (c = CHR '' '' \<or> c = CHR 0x09 \<or> c = CHR 0x0A \<or> c = CHR 0x0B \<or> c = CHR 0x0C \<or> c = CHR 0x0D)"

definition trim :: "string \<Rightarrow> string" where
  "trim s = rev (dropWhile isSpace (rev (dropWhile isSpace s)))"

text \<open>
  The host's \<open>Date\<close> is a parameter: \<open>toISO s\<close> is \<open>new Date(s).toISOString().slice(0,10)\<close>,
  or \<open>None\<close> for an invalid date.
\<close>

definition normalizeDate :: "(string \<Rightarrow> string option) \<Rightarrow> string \<Rightarrow> string" where
  "normalizeDate toISO d =
     (case toISO d of
        Some d1 \<Rightarrow> d1
      | None \<Rightarrow>
          (let mm = trim (map (\<lambda>c. if c = CHR ''.'' \<or> c = CHR ''/'' then CHR ''-'' else c) d)
           in case toISO mm of Some d2 \<Rightarrow> d2 | None \<Rightarrow> d))"

text \<open>\<open>Array.from(new Set(xs))\<close>: the distinct elements in order of first insertion.\<close>

definition dedup :: "'a list \<Rightarrow> 'a list" where
  "dedup xs = rev (remdups (rev xs))"

definition lookupKey :: "string \<Rightarrow> string \<Rightarrow> string" where
  "lookupKey symb d = symb @ ''||'' @ d"

definition buildLookup :: "row list \<Rightarrow> (string \<rightharpoonup> jsnum \<times> jsnum)" where
  "buildLookup rows = foldl (\<lambda>m r. m(lookupKey (Symbol r) (Date r) \<mapsto> (Open r, Close r))) Map.empty rows"

definition pivotSeries :: "(string \<rightharpoonup> jsnum \<times> jsnum) \<Rightarrow> string list \<Rightarrow> string \<Rightarrow> slot list" where
  "pivotSeries lookup ds symb =
     map (\<lambda>d. case lookup (lookupKey symb d) of
                 Some (o_v, c_v) \<Rightarrow> \<lparr>s_date = d, s_open = o_v, s_close = c_v\<rparr>
               | None \<Rightarrow> \<lparr>s_date = d, s_open = NaN, s_close = NaN\<rparr>) ds"

definition computeNormalizer :: "slot list \<Rightarrow> normalizer" where
  "computeNormalizer arr =
     (let opens = filter (\<lambda>v. \<not> isNaN v) (map s_open arr);
          closes = filter (\<lambda>v. \<not> isNaN v) (map s_close arr);
          omin = Math_min opens; omax = Math_max opens;
          cmin = Math_min closes; cmax = Math_max closes
      in \<lparr>openMin = omin, openMax = (if jeq omax omin then jadd omin (Num (1 / 10 ^ 6)) else omax),
          closeMin = cmin, closeMax = (if jeq cmax cmin then jadd cmin (Num (1 / 10 ^ 6)) else cmax)\<rparr>)"

text \<open>A loop that updates a value and whose body may throw.\<close>

fun foldE :: "('b \<Rightarrow> 'a \<Rightarrow> error + 'b) \<Rightarrow> 'b \<Rightarrow> 'a list \<Rightarrow> error + 'b" where
  "foldE f m [] = Inr m"
| "foldE f m (x # xs) = (case f m x of Inl e \<Rightarrow> Inl e | Inr m' \<Rightarrow> foldE f m' xs)"

text \<open>
  \<open>time s\<close> is the time value of \<open>new Date(s)\<close>, by which the date axis is sorted
  (the sort is stable). For a date that does not parse the comparator yields \<open>NaN\<close>,
  which the sort takes for 0: an axis on which no date parses keeps its order of
  insertion, as with a constant \<open>time\<close>; the order of an axis that mixes the two kinds
  is left to the engine and is not modelled. The symbols are sorted by code unit, the
  order of strings.
\<close>

definition loadFromCSVText ::
  "(string \<Rightarrow> string option) \<Rightarrow> (string \<Rightarrow> int) \<Rightarrow> loader \<Rightarrow> row list \<Rightarrow> error + loader" where
  "loadFromCSVText toISO time ldr data =
     (let rows0 = filter validRow data
      in if rows0 = [] then Inl NoValidRows
         else
           (let rows = map (\<lambda>r. r\<lparr>Date := normalizeDate toISO (Date r)\<rparr>) rows0;
                syms = sort (dedup (map Symbol rows));
                ds = sort_key time (dedup (map Date rows));
                warn = (if length syms \<noteq> 10 then [LogWarning (length syms)] else []);
                lookup = buildLookup rows;
                series = foldl (\<lambda>m symb. m(symb \<mapsto> pivotSeries lookup ds symb)) Map.empty syms
            in case foldE (\<lambda>m symb. case series symb of
                                        None \<Rightarrow> Inl TypeError
                                      | Some arr \<Rightarrow> Inr (m(symb \<mapsto> computeNormalizer arr)))
                          Map.empty syms of
                 Inl e \<Rightarrow> Inl e
               | Inr norms \<Rightarrow>
                   Inr (ldr\<lparr>symbols := syms, dates := ds, perSymbolSeries := series,
                            normalizers := norms, raw := Some rows,
                            logged := logged ldr @ warn @
                                      [LogParsed (length rows) (length syms) (length ds)]\<rparr>)))"

subsection \<open>prepareDataset\<close>

text \<open>\<open>arr[t]\<close>: \<open>None\<close> is \<open>undefined\<close>, what an index out of range reads.\<close>

definition slotAt :: "slot list \<Rightarrow> nat \<Rightarrow> slot option" where
  "slotAt arr t = (if t < length arr then Some (arr ! t) else None)"

text \<open>
  The two checks that iterate over one symbol's series, \<open>True\<close> for \<open>bad\<close>. The series is
  \<open>this.perSymbolSeries[this.symbols[s]]\<close>, read again at every step; reading an index
  of \<open>undefined\<close>, or \<open>v.open\<close> of an \<open>undefined\<close> slot, is a \<open>TypeError\<close>. The loop over
  the window stops at the first bad slot; the loop over the offsets runs in any case.
\<close>

fun windowBad :: "slot list option \<Rightarrow> nat list \<Rightarrow> error + bool" where
  "windowBad arrO [] = Inr False"
| "windowBad arrO (t # ts) =
     (case arrO of
        None \<Rightarrow> Inl TypeError
      | Some arr \<Rightarrow>
          (case slotAt arr t of
             None \<Rightarrow> Inl TypeError
           | Some v \<Rightarrow> if isNaN (s_open v) \<or> isNaN (s_close v) then Inr True
                       else windowBad arrO ts))"

fun futureBad :: "slot list option \<Rightarrow> nat \<Rightarrow> nat list \<Rightarrow> error + bool" where
  "futureBad arrO i [] = Inr False"
| "futureBad arrO i (off # offs) =
     (case arrO of
        None \<Rightarrow> Inl TypeError
      | Some arr \<Rightarrow>
          (case slotAt arr (i + off) of
             None \<Rightarrow> Inr True
           | Some v2 \<Rightarrow> if isNaN (s_close v2) then Inr True else futureBad arrO i offs))"

text \<open>The loop over the symbols, left at the first symbol that is bad.\<close>

fun anchorBad :: "loader \<Rightarrow> nat \<Rightarrow> nat \<Rightarrow> string list \<Rightarrow> error + bool" where
  "anchorBad ldr seqStart i [] = Inr False"
| "anchorBad ldr seqStart i (symb # rest) =
     (case windowBad (perSymbolSeries ldr symb) [seqStart..<Suc i] of
        Inl e \<Rightarrow> Inl e
      | Inr wb \<Rightarrow>
          (case futureBad (perSymbolSeries ldr symb) i [1..<Suc (forecastHorizon ldr)] of
             Inl e \<Rightarrow> Inl e
           | Inr fb \<Rightarrow> if wb \<or> fb then Inr True else anchorBad ldr seqStart i rest))"

text \<open>A loop whose body may throw and that pushes one result per round.\<close>

fun mapE :: "('a \<Rightarrow> error + 'b) \<Rightarrow> 'a list \<Rightarrow> error + 'b list" where
  "mapE f [] = Inr []"
| "mapE f (x # xs) =
     (case f x of
        Inl e \<Rightarrow> Inl e
      | Inr y \<Rightarrow> (case mapE f xs of Inl e \<Rightarrow> Inl e | Inr ys \<Rightarrow> Inr (y # ys)))"

text \<open>The min-max normalization of the two features of a slot.\<close>

definition normalizeOpen :: "normalizer \<Rightarrow> slot \<Rightarrow> jsnum" where
  "normalizeOpen nrm v = jdiv (jsub (s_open v) (openMin nrm)) (jsub (openMax nrm) (openMin nrm))"

definition normalizeClose :: "normalizer \<Rightarrow> slot \<Rightarrow> jsnum" where
  "normalizeClose nrm v = jdiv (jsub (s_close v) (closeMin nrm)) (jsub (closeMax nrm) (closeMin nrm))"

text \<open>\<open>row.push(on, cn)\<close> for one symbol at position \<open>t\<close>, and the row of all symbols.\<close>

definition featurePair :: "loader \<Rightarrow> nat \<Rightarrow> string \<Rightarrow> error + jsnum list" where
  "featurePair ldr t symb =
     (case perSymbolSeries ldr symb of
        None \<Rightarrow> Inl TypeError
      | Some arr \<Rightarrow>
          (case slotAt arr t of
             None \<Rightarrow> Inl TypeError
           | Some v \<Rightarrow>
               (case normalizers ldr symb of
                  None \<Rightarrow> Inl TypeError
                | Some nrm \<Rightarrow> Inr [normalizeOpen nrm v, normalizeClose nrm v])))"

definition inputRow :: "loader \<Rightarrow> nat \<Rightarrow> error + jsnum list" where
  "inputRow ldr t =
     (case mapE (featurePair ldr t) (symbols ldr) of
        Inl e \<Rightarrow> Inl e
      | Inr pairs \<Rightarrow> Inr (concat pairs))"

definition sampleInput :: "loader \<Rightarrow> nat \<Rightarrow> nat \<Rightarrow> error + jsnum list list" where
  "sampleInput ldr seqStart i = mapE (inputRow ldr) [seqStart..<Suc i]"

text \<open>The labels of one symbol for the offsets \<open>1..h\<close>, and of all symbols.\<close>

definition symbolLabels :: "loader \<Rightarrow> nat \<Rightarrow> string \<Rightarrow> error + int list" where
  "symbolLabels ldr i symb =
     (case perSymbolSeries ldr symb of
        None \<Rightarrow> Inl TypeError
      | Some arr \<Rightarrow>
          (case slotAt arr i of
             None \<Rightarrow> Inl TypeError
           | Some vD \<Rightarrow>
               mapE (\<lambda>off. case slotAt arr (i + off) of
                              None \<Rightarrow> Inl TypeError
                            | Some vF \<Rightarrow> Inr (if jgt (s_close vF) (s_close vD) then 1 else 0))
                    [1..<Suc (forecastHorizon ldr)]))"

definition sampleOutput :: "loader \<Rightarrow> nat \<Rightarrow> error + int list" where
  "sampleOutput ldr i =
     (case mapE (symbolLabels ldr i) (symbols ldr) of
        Inl e \<Rightarrow> Inl e
      | Inr labels \<Rightarrow> Inr (concat labels))"

text \<open>
  One round of the loop over the anchors: \<open>None\<close> when the anchor is skipped, else
  the input window, the labels and the anchor date that the round pushes.
\<close>

type_synonym sample = "jsnum list list \<times> int list \<times> string"

definition anchorSample :: "loader \<Rightarrow> nat \<Rightarrow> error + sample option" where
  "anchorSample ldr i =
     (let seqStart = int i - int (sequenceLength ldr) + 1;
          futureEnd = i + forecastHorizon ldr
      in if seqStart < 0 then Inr None
         else if futureEnd \<ge> length (dates ldr) then Inr None
         else
           (case anchorBad ldr (nat seqStart) i (symbols ldr) of
              Inl e \<Rightarrow> Inl e
            | Inr True \<Rightarrow> Inr None
            | Inr False \<Rightarrow>
                (case sampleInput ldr (nat seqStart) i of
                   Inl e \<Rightarrow> Inl e
                 | Inr inp \<Rightarrow>
                     (case sampleOutput ldr i of
                        Inl e \<Rightarrow> Inl e
                      | Inr out \<Rightarrow> Inr (Some (inp, out, dates ldr ! i))))))"

fun collectSamples :: "loader \<Rightarrow> nat list \<Rightarrow> error + sample list" where
  "collectSamples ldr [] = Inr []"
| "collectSamples ldr (i # rest) =
     (case anchorSample ldr i of
        Inl e \<Rightarrow> Inl e
      | Inr r \<Rightarrow>
          (case collectSamples ldr rest of
             Inl e \<Rightarrow> Inl e
           | Inr later \<Rightarrow> Inr (case r of None \<Rightarrow> later | Some smp \<Rightarrow> smp # later)))"

text \<open>
  \<open>Math.round\<close> rounds half up, as \<open>round\<close> does. \<open>x.slice([b,0,..],[n,..])\<close> along the
  first axis, the other axes taken whole: a size of -1 takes the rest, any other
  negative size and a negative begin are rejected, and so is a slice that ends beyond
  the tensor. \<open>tf.tensor3d\<close> rejects nested arrays of depth two, which is what the
  inputs are when the windows are empty.
\<close>

definition trainCountOf :: "real \<Rightarrow> nat \<Rightarrow> int" where
  "trainCountOf trainSplitPercent totalN = round ((trainSplitPercent / 100) * real totalN)"

definition tf_slice0 :: "'a list \<Rightarrow> int \<Rightarrow> int \<Rightarrow> error + 'a list" where
  "tf_slice0 xs b n =
     (if b < 0 \<or> n < - 1 then Inl TfError
      else (let n' = (if n = - 1 then int (length xs) - b else n)
            in if b + n' > int (length xs) then Inl TfError
               else Inr (take (nat n') (drop (nat b) xs))))"

definition tensor3d :: "'a list list list \<Rightarrow> error + 'a list list list" where
  "tensor3d xs = (case xs of (_ # _) # _ \<Rightarrow> Inr xs | _ \<Rightarrow> Inl TfError)"

record meta =
  samples :: nat
  trainSamples :: int
  testSamples :: int
  m_sequenceLength :: nat
  featuresPerStep :: nat
  outputDim :: nat
  m_symbols :: "string list"

definition prepareDataset :: "loader \<Rightarrow> real \<Rightarrow> error + (loader \<times> meta)" where
  "prepareDataset ldr trainSplitPercent =
     (case raw ldr of
        None \<Rightarrow> Inl NoDataLoaded
      | Some _ \<Rightarrow>
     (let S = length (symbols ldr); D = length (dates ldr);
          seq = sequenceLength ldr; h = forecastHorizon ldr
      in case collectSamples ldr [0..<D] of
           Inl e \<Rightarrow> Inl e
         | Inr smps \<Rightarrow>
     (let inputSamples = map fst smps;
          outputSamples = map (fst \<circ> snd) smps;
          sDates = map (snd \<circ> snd) smps
      in if inputSamples = [] then Inl NoValidSamples
         else
     (let totalN = length inputSamples;
          trainCount = trainCountOf trainSplitPercent totalN
      in case tensor3d inputSamples of
           Inl e \<Rightarrow> Inl e
         | Inr X \<Rightarrow>
     (case tf_slice0 X 0 trainCount of
           Inl e \<Rightarrow> Inl e
         | Inr Xtr \<Rightarrow>
     (case tf_slice0 X trainCount (int totalN - trainCount) of
           Inl e \<Rightarrow> Inl e
         | Inr Xte \<Rightarrow>
     (case tf_slice0 outputSamples 0 trainCount of
           Inl e \<Rightarrow> Inl e
         | Inr ytr \<Rightarrow>
     (case tf_slice0 outputSamples trainCount (int totalN - trainCount) of
           Inl e \<Rightarrow> Inl e
         | Inr yte \<Rightarrow>
             Inr (ldr\<lparr>X_train := Some Xtr, y_train := Some ytr,
                      X_test := Some Xte, y_test := Some yte,
                      trainIndices := Some (0, trainCount),
                      testIndices := Some (trainCount, int totalN - trainCount),
                      sampleDates := Some sDates,
                      sampleDatesTrain := Some (take (nat trainCount) sDates),
                      sampleDatesTest := Some (drop (nat trainCount) sDates),
                      logged := logged ldr @ [LogPrepared totalN trainCount (int totalN - trainCount)]\<rparr>,
                  \<lparr>samples = totalN, trainSamples = trainCount,
                   testSamples = int totalN - trainCount, m_sequenceLength = seq,
                   featuresPerStep = S * 2, outputDim = S * h,
                   m_symbols = symbols ldr\<rparr>)))))))))"

section \<open>Well-formed loader states and worked examples\<close>

text \<open>
  What \<open>loadFromCSVText\<close> establishes and \<open>prepareDataset\<close> relies on: every symbol
  has a series as long as the date axis, and a normalizer.
\<close>

definition wf_loader :: "loader \<Rightarrow> bool" where
  "wf_loader ldr =
     (\<forall>symb \<in> set (symbols ldr).
        (case perSymbolSeries ldr symb of
           None \<Rightarrow> False
         | Some arr \<Rightarrow> length arr = length (dates ldr)) \<and>
        normalizers ldr symb \<noteq> None)"

text \<open>The rows that \<open>loadFromCSVText\<close> keeps, with their dates normalized.\<close>

definition cleanRows :: "(string \<Rightarrow> string option) \<Rightarrow> row list \<Rightarrow> row list" where
  "cleanRows toISO data = map (\<lambda>r. r\<lparr>Date := normalizeDate toISO (Date r)\<rparr>) (filter validRow data)"

text \<open>
  The scenario of the specification: two assets and six consecutive days, with closes
  10, 11, 9, 12, 13, 14 and 5, 5, 6, 6, 7, 8, a window of two days and one offset. The
  dates are ISO strings already, so the parser returns them as they are; their time
  value is taken to be the day of the month, read off the last two digits.
\<close>

definition mkRow :: "string \<Rightarrow> string \<Rightarrow> real \<Rightarrow> real \<Rightarrow> row" where
  "mkRow d s a b = \<lparr>Date = d, Symbol = s, Open = Num a, Close = Num b\<rparr>"

definition mkSlot :: "string \<Rightarrow> real \<Rightarrow> real \<Rightarrow> slot" where
  "mkSlot d a b = \<lparr>s_date = d, s_open = Num a, s_close = Num b\<rparr>"

definition demo_rows :: "row list" where
  "demo_rows =
     [mkRow ''2024-01-01'' ''A'' 1 10, mkRow ''2024-01-02'' ''A'' 1 11, mkRow ''2024-01-03'' ''A'' 1 9,
      mkRow ''2024-01-04'' ''A'' 1 12, mkRow ''2024-01-05'' ''A'' 1 13, mkRow ''2024-01-06'' ''A'' 1 14,
      mkRow ''2024-01-01'' ''B'' 2 5, mkRow ''2024-01-02'' ''B'' 2 5, mkRow ''2024-01-03'' ''B'' 3 6,
      mkRow ''2024-01-04'' ''B'' 2 6, mkRow ''2024-01-05'' ''B'' 2 7, mkRow ''2024-01-06'' ''B'' 2 8]"


definition demo_cfg :: config where
  "demo_cfg = \<lparr>opt_sequenceLength = Some 2, opt_forecastHorizon = Some 1,
               opt_expectedSymbolCount = None\<rparr>"

definition demo_dates :: "string list" where
  "demo_dates = [''2024-01-01'', ''2024-01-02'', ''2024-01-03'',
                 ''2024-01-04'', ''2024-01-05'', ''2024-01-06'']"

definition demo_series_A :: "slot list" where
  "demo_series_A =
     [mkSlot ''2024-01-01'' 1 10, mkSlot ''2024-01-02'' 1 11, mkSlot ''2024-01-03'' 1 9,
      mkSlot ''2024-01-04'' 1 12, mkSlot ''2024-01-05'' 1 13, mkSlot ''2024-01-06'' 1 14]"

definition demo_series_B :: "slot list" where
  "demo_series_B =
     [mkSlot ''2024-01-01'' 2 5, mkSlot ''2024-01-02'' 2 5, mkSlot ''2024-01-03'' 3 6,
      mkSlot ''2024-01-04'' 2 6, mkSlot ''2024-01-05'' 2 7, mkSlot ''2024-01-06'' 2 8]"

definition demo_loader :: loader where
  "demo_loader = (DataLoader demo_cfg)\<lparr>
      symbols := [''A'', ''B''],
      dates := demo_dates,
      perSymbolSeries := [''A'' \<mapsto> demo_series_A, ''B'' \<mapsto> demo_series_B],
      normalizers :=
        [''A'' \<mapsto> \<lparr>openMin = Num 1, openMax = Num (1000001 / 1000000),
                    closeMin = Num 9, closeMax = Num 14\<rparr>,
         ''B'' \<mapsto> \<lparr>openMin = Num 2, openMax = Num 3, closeMin = Num 5, closeMax = Num 8\<rparr>],
      raw := Some demo_rows,
      logged := [LogWarning 2, LogParsed 12 2 6]\<rparr>"

text \<open>The same state with the fourth day of \<open>B\<close> missing.\<close>

definition demo_gap_loader :: loader where
  "demo_gap_loader = demo_loader\<lparr>perSymbolSeries :=
      [''A'' \<mapsto> demo_series_A,
       ''B'' \<mapsto> demo_series_B[3 := \<lparr>s_date = ''2024-01-04'', s_open = NaN, s_close = NaN\<rparr>]]\<rparr>"

text \<open>
  Predictions and truths for two samples, one asset and two offsets; the first sample
  has a probability of exactly one half and exactly one offset right.
\<close>

definition demo_preds :: "real tensor" where
  "demo_preds = \<lparr>shape = [2, 2], vals = [9/10, 1/2, 1/5, 3/5]\<rparr>"

definition demo_truths :: "real tensor" where
  "demo_truths = \<lparr>shape = [2, 2], vals = [1, 1, 0, 0]\<rparr>"

definition demo_result :: evalResult where
  "demo_result = \<lparr>perStockAcc = [1/2], overallAcc = 1/2, perStockTimeline = [[0, 0]],
                   predArr = [[[1, 0]], [[0, 1]]], truthArr = [[[1, 1]], [[0, 0]]]\<rparr>"


definition collide_rows :: "row list" where
  "collide_rows =
     [\<lparr>Date = ''Y||tbd'', Symbol = ''X'', Open = Num 1, Close = Num 2\<rparr>,
      \<lparr>Date = ''Y||tbd'', Symbol = ''X'', Open = Num 5, Close = Num 6\<rparr>,
      \<lparr>Date = ''tbd'', Symbol = ''X||Y'', Open = Num 3, Close = Num 4\<rparr>]"

section \<open>Properties of the evaluator\<close>

subsection \<open>Indexing and sums\<close>

lemmas eval_defs =
  evaluateTestSet_def predict_def computePerStockAccuracy_def Let_def tf_reshape_def
  tf_mean_2_def tf_transpose_def arraySync2_def arraySync3_def tf_mean_0_2_def tf_mean_def
  toInt_bool_def tf_greater_def toInt_def tf_equal_def toFloat_bool_def trunc_def
  demo_preds_def demo_truths_def demo_result_def wf_tensor_def

lemma grid_length: "length (concat (map (\<lambda>n. map (f n) [0..<S]) [0..<N])) = N * S"
  by (induction N) auto

lemma grid_index_less: "n < N \<Longrightarrow> s < S \<Longrightarrow> n * S + s < N * (S::nat)"
proof -
  assume a: "n < N" "s < S"
  then have "n * S + s < n * S + S" by simp
  also have "\<dots> = Suc n * S" by simp
  also have "\<dots> \<le> N * S" using a(1) by (intro mult_le_mono1) simp
  finally show ?thesis .
qed

lemma grid_nth: "n < N \<Longrightarrow> s < S \<Longrightarrow> concat (map (\<lambda>n. map (f n) [0..<S]) [0..<N]) ! (n * S + s) = f n s"
proof (induction N)
  case 0 then show ?case by simp
next
  case (Suc N)
  show ?case
  proof (cases "n < N")
    case True
    then have "n * S + s < N * S"
      using Suc.prems(2) by (rule grid_index_less)
    with True Suc show ?thesis by (simp add: nth_append grid_length)
  next
    case False
    with Suc.prems have "n = N" by simp
    with Suc.prems show ?thesis by (simp add: nth_append grid_length)
  qed
qed

lemma shape_ops:
  "shape (tf_greater t c) = shape t" "shape (toInt_bool b) = shape b" "shape (toInt t) = shape t"
  "shape (toFloat_bool b) = shape b" "shape (tf_equal x y) = shape x"
  by (simp_all add: tf_greater_def toInt_bool_def toInt_def toFloat_bool_def tf_equal_def)

lemma vals_toInt_bool_greater:
  "vals (toInt_bool (tf_greater t c)) = map (\<lambda>v. if c < v then 1 else 0) (vals t)"
  by (simp add: toInt_bool_def tf_greater_def comp_def)

lemma evaluateTestSet_result:
  assumes "shape (net X) = N # rest"
    and "prod_list (shape (net X)) = N * length syms * h"
    and "prod_list (shape y) = N * length syms * h"
  shows "\<exists>accs overall. evaluateTestSet (Some net) X y syms h =
    Inr \<lparr>perStockAcc = accs, overallAcc = overall,
         perStockTimeline = map (\<lambda>s. map (\<lambda>n. 
             if 1/2 < (\<Sum>k\<leftarrow>[0..<h]. real_of_int (vals (toInt_bool (tf_equal \<lparr>shape = [N, length syms, h], vals = vals (toInt_bool (tf_greater (net X) (1/2)))\<rparr> \<lparr>shape = [N, length syms, h], vals = vals (toInt y)\<rparr>)) ! ((n * length syms + s) * h + k)) / real h) then 1 else 0) [0..<N]) [0..<length syms],
         predArr = map (\<lambda>n. map (\<lambda>s. map (\<lambda>k. vals (toInt_bool (tf_greater (net X) (1/2))) ! ((n * length syms + s) * h + k)) [0..<h]) [0..<length syms]) [0..<N],
         truthArr = map (\<lambda>n. map (\<lambda>s. map (\<lambda>k. vals (toInt y) ! ((n * length syms + s) * h + k)) [0..<h]) [0..<length syms]) [0..<N]\<rparr>"
proof -
  let ?S = "length syms"
  have r1: "tf_reshape (toInt_bool (tf_greater (net X) (1/2))) [N, ?S, h] = Inr \<lparr>shape = [N, ?S, h], vals = vals (toInt_bool (tf_greater (net X) (1/2)))\<rparr>"
    unfolding tf_reshape_def shape_ops assms(2) by simp
  have r2: "tf_reshape (toInt y) [N, ?S, h] = Inr \<lparr>shape = [N, ?S, h], vals = vals (toInt y)\<rparr>"
    unfolding tf_reshape_def shape_ops assms(3) by simp
  obtain accs overall where c: "computePerStockAccuracy y (net X) ?S h = Inr (accs, overall)"
    using assms(1) r1 r2 by (simp add: computePerStockAccuracy_def Let_def shape_ops tf_mean_0_2_def)
  show ?thesis
    apply (rule exI[of _ accs], rule exI[of _ overall])
    using assms(1) r1 r2 c
    apply (simp add: evaluateTestSet_def predict_def Let_def shape_ops tf_mean_2_def tf_transpose_def arraySync2_def arraySync3_def)
    apply (simp add: toInt_bool_def[of "\<lparr>shape = _, vals = _\<rparr>"] tf_greater_def[of "\<lparr>shape = _, vals = _\<rparr>"] comp_def grid_nth map_nth grid_length grid_index_less)
    done
qed

lemma sum_group2:
  fixes g :: "nat \<Rightarrow> real"
  shows "(\<Sum>m<n. \<Sum>k<h. g (m * h + k)) = (\<Sum>i<n * h. g i)"
proof -
  have "(\<Sum>m<n. \<Sum>k<h. g (m * h + k)) = (\<Sum>m<n. sum g {m * h..<m * h + h})"
  proof (rule sum.cong[OF refl])
    fix m
    have "sum g {m * h..<m * h + h} = sum g {0 + m * h..<h + m * h}" by (simp add: add.commute)
    also have "\<dots> = (\<Sum>k\<in>{0..<h}. g (k + m * h))" by (rule sum.shift_bounds_nat_ivl)
    finally show "(\<Sum>k<h. g (m * h + k)) = sum g {m * h..<m * h + h}"
      by (simp add: add.commute lessThan_atLeast0)
  qed
  also have "\<dots> = (\<Sum>i<n * h. g i)" by (rule sum.nat_group)
  finally show ?thesis .
qed

lemma sum3_reindex:
  fixes g :: "nat \<Rightarrow> real"
  shows "(\<Sum>s<S. \<Sum>n<N. \<Sum>k<h. g ((n * S + s) * h + k)) = (\<Sum>i<N * S * h. g i)"
proof -
  have "(\<Sum>s<S. \<Sum>n<N. \<Sum>k<h. g ((n * S + s) * h + k)) = (\<Sum>n<N. \<Sum>s<S. \<Sum>k<h. g ((n * S + s) * h + k))"
    by (rule sum.swap)
  also have "\<dots> = (\<Sum>m<N * S. \<Sum>k<h. g (m * h + k))"
    by (rule sum_group2[where g = "\<lambda>m. \<Sum>k<h. g (m * h + k)"])
  also have "\<dots> = (\<Sum>i<N * S * h. g i)" by (rule sum_group2)
  finally show ?thesis .
qed

lemma sum_list_upt_conv: "(\<Sum>i\<leftarrow>[0..<n]. f i) = (\<Sum>i<n. (f i :: real))"
  by (simp add: interv_sum_list_conv_sum_set_nat lessThan_atLeast0)

lemma sum_list_div_const: "(\<Sum>v\<leftarrow>c. v / d) = sum_list c / (d::real)"
  by (induction c) (simp_all add: add_divide_distrib)

lemma reshape_ok:
  "prod_list (shape t) = N * S * h \<Longrightarrow> tf_reshape t [N, S, h] = Inr \<lparr>shape = [N, S, h], vals = vals t\<rparr>"
  by (simp add: tf_reshape_def)

lemma reshape_fail:
  "prod_list (shape t) \<noteq> N * S * h \<Longrightarrow> tf_reshape t [N, S, h] = Inl TfError"
  by (auto simp add: tf_reshape_def)

lemma computePerStockAccuracy_ok:
  assumes "shape y_pred = N # rest"
    and "prod_list (shape y_pred) = N * S * h"
    and "prod_list (shape y_true) = N * S * h"
  shows "computePerStockAccuracy y_true y_pred S h =
     Inr (map (\<lambda>s. \<Sum>n\<leftarrow>[0..<N]. \<Sum>k\<leftarrow>[0..<h].
            vals (toFloat_bool (tf_equal \<lparr>shape = [N, S, h], vals = vals (toInt_bool (tf_greater y_pred (1/2)))\<rparr>
                                        \<lparr>shape = [N, S, h], vals = vals (toInt y_true)\<rparr>)) ! ((n * S + s) * h + k) / real (N * h)) [0..<S],
               (\<Sum>v\<leftarrow>vals (toFloat_bool (tf_equal \<lparr>shape = [N, S, h], vals = vals (toInt_bool (tf_greater y_pred (1/2)))\<rparr>
                                        \<lparr>shape = [N, S, h], vals = vals (toInt y_true)\<rparr>)). v / real (N * S * h)))"
proof -
  let ?pb = "toInt_bool (tf_greater y_pred (1/2))"
  have sp: "shape ?pb = N # rest"
    by (simp add: shape_ops assms)
  have r1: "tf_reshape ?pb [N, S, h] = Inr \<lparr>shape = [N, S, h], vals = vals ?pb\<rparr>"
    by (rule reshape_ok) (simp add: shape_ops assms(2))
  have r2: "tf_reshape (toInt y_true) [N, S, h] = Inr \<lparr>shape = [N, S, h], vals = vals (toInt y_true)\<rparr>"
    by (rule reshape_ok) (simp add: shape_ops assms(3))
  show ?thesis
    unfolding computePerStockAccuracy_def Let_def sp list.case r1 r2
    by (simp add: tf_mean_0_2_def tf_mean_def shape_ops mult.assoc)
qed

lemma computePerStockAccuracy_fail:
  assumes "shape y_pred = N # rest"
    and "prod_list (shape y_pred) \<noteq> N * S * h \<or> prod_list (shape y_true) \<noteq> N * S * h"
  shows "computePerStockAccuracy y_true y_pred S h = Inl TfError"
proof -
  let ?pb = "toInt_bool (tf_greater y_pred (1/2))"
  have sp: "shape ?pb = N # rest"
    by (simp add: shape_ops assms)
  show ?thesis
  proof (cases "prod_list (shape y_pred) = N * S * h")
    case False
    have r1: "tf_reshape ?pb [N, S, h] = Inl TfError"
      by (rule reshape_fail) (simp add: shape_ops False)
    show ?thesis
      unfolding computePerStockAccuracy_def Let_def sp list.case r1 by simp
  next
    case True
    have r1: "tf_reshape ?pb [N, S, h] = Inr \<lparr>shape = [N, S, h], vals = vals ?pb\<rparr>"
      by (rule reshape_ok) (simp add: shape_ops True)
    have r2: "tf_reshape (toInt y_true) [N, S, h] = Inl TfError"
      using assms(2) True by (intro reshape_fail) (simp add: shape_ops)
    show ?thesis
      unfolding computePerStockAccuracy_def Let_def sp list.case r1 r2 by simp
  qed
qed

lemma computePerStockAccuracy_Inr:
  assumes "computePerStockAccuracy y_true y_pred S h = Inr (accs, overall)"
  obtains N rest where "shape y_pred = N # rest"
    and "prod_list (shape y_pred) = N * S * h"
    and "prod_list (shape y_true) = N * S * h"
    and "accs = map (\<lambda>s. \<Sum>n\<leftarrow>[0..<N]. \<Sum>k\<leftarrow>[0..<h].
            vals (toFloat_bool (tf_equal \<lparr>shape = [N, S, h], vals = vals (toInt_bool (tf_greater y_pred (1/2)))\<rparr>
                                        \<lparr>shape = [N, S, h], vals = vals (toInt y_true)\<rparr>)) ! ((n * S + s) * h + k) / real (N * h)) [0..<S]"
    and "overall = (\<Sum>v\<leftarrow>vals (toFloat_bool (tf_equal \<lparr>shape = [N, S, h], vals = vals (toInt_bool (tf_greater y_pred (1/2)))\<rparr>
                                        \<lparr>shape = [N, S, h], vals = vals (toInt y_true)\<rparr>)). v / real (N * S * h))"
proof (cases "shape y_pred")
  case Nil
  with assms show ?thesis
    by (simp add: computePerStockAccuracy_def Let_def shape_ops)
next
  case (Cons N rest)
  have p: "prod_list (shape y_pred) = N * S * h \<and> prod_list (shape y_true) = N * S * h"
    using computePerStockAccuracy_fail[OF Cons, of S h y_true] assms by auto
  from assms computePerStockAccuracy_ok[OF Cons conjunct1[OF p] conjunct2[OF p]]
  have "accs = map (\<lambda>s. \<Sum>n\<leftarrow>[0..<N]. \<Sum>k\<leftarrow>[0..<h].
            vals (toFloat_bool (tf_equal \<lparr>shape = [N, S, h], vals = vals (toInt_bool (tf_greater y_pred (1/2)))\<rparr>
                                        \<lparr>shape = [N, S, h], vals = vals (toInt y_true)\<rparr>)) ! ((n * S + s) * h + k) / real (N * h)) [0..<S]"
    and "overall = (\<Sum>v\<leftarrow>vals (toFloat_bool (tf_equal \<lparr>shape = [N, S, h], vals = vals (toInt_bool (tf_greater y_pred (1/2)))\<rparr>
                                        \<lparr>shape = [N, S, h], vals = vals (toInt y_true)\<rparr>)). v / real (N * S * h))"
    by simp_all
  with that[OF Cons conjunct1[OF p] conjunct2[OF p]] show ?thesis by blast
qed

lemma length_vals_correct:
  "length (vals (toFloat_bool (tf_equal \<lparr>shape = sh, vals = vals (toInt_bool (tf_greater p c))\<rparr>
                                        \<lparr>shape = sh, vals = vals (toInt t)\<rparr>))) = min (length (vals p)) (length (vals t))"
  by (simp add: toFloat_bool_def tf_equal_def toInt_bool_def tf_greater_def toInt_def)

subsection \<open>Overall accuracy and per-asset accuracies\<close>

text \<open>
  Claim C6. Whenever \<open>computePerStockAccuracy\<close> returns, for tensors that hold as many
  values as their shapes say and at least one asset, it returns one accuracy per asset
  and the overall accuracy is the arithmetic mean of the per-asset accuracies: every
  asset accounts for the same number \<open>N * h\<close> of entries. Numbers are exact reals here,
  so the two sides are equal and not only close.
\<close>

theorem overall_is_mean_of_perStock:
  assumes ok: "computePerStockAccuracy y_true y_pred S h = Inr (accs, overall)"
    and wt: "wf_tensor y_true" and wp: "wf_tensor y_pred"
    and S: "0 < S"
  shows "length accs = S \<and> overall = sum_list accs / real S"
proof -
  from ok obtain N rest where sh: "shape y_pred = N # rest"
    and pp: "prod_list (shape y_pred) = N * S * h"
    and pt: "prod_list (shape y_true) = N * S * h"
    and accs: "accs = map (\<lambda>s. \<Sum>n\<leftarrow>[0..<N]. \<Sum>k\<leftarrow>[0..<h].
            vals (toFloat_bool (tf_equal \<lparr>shape = [N, S, h], vals = vals (toInt_bool (tf_greater y_pred (1/2)))\<rparr>
                                        \<lparr>shape = [N, S, h], vals = vals (toInt y_true)\<rparr>)) ! ((n * S + s) * h + k) / real (N * h)) [0..<S]"
    and ov: "overall = (\<Sum>v\<leftarrow>vals (toFloat_bool (tf_equal \<lparr>shape = [N, S, h], vals = vals (toInt_bool (tf_greater y_pred (1/2)))\<rparr>
                                        \<lparr>shape = [N, S, h], vals = vals (toInt y_true)\<rparr>)). v / real (N * S * h))"
    by (rule computePerStockAccuracy_Inr)
  define c where "c = vals (toFloat_bool (tf_equal \<lparr>shape = [N, S, h], vals = vals (toInt_bool (tf_greater y_pred (1/2)))\<rparr>
                                        \<lparr>shape = [N, S, h], vals = vals (toInt y_true)\<rparr>))"
  have len: "length c = N * S * h"
    using wt wp pp pt by (simp add: c_def length_vals_correct wf_tensor_def)
  have "sum_list accs = (\<Sum>s<S. \<Sum>n<N. \<Sum>k<h. c ! ((n * S + s) * h + k) / real (N * h))"
    unfolding accs c_def[symmetric] by (simp add: sum_list_upt_conv)
  also have "\<dots> = (\<Sum>s<S. \<Sum>n<N. \<Sum>k<h. c ! ((n * S + s) * h + k)) / real (N * h)"
    by (simp add: sum_divide_distrib)
  also have "(\<Sum>s<S. \<Sum>n<N. \<Sum>k<h. c ! ((n * S + s) * h + k)) = (\<Sum>i<N * S * h. c ! i)"
    by (rule sum3_reindex)
  finally have lhs: "sum_list accs = (\<Sum>i<N * S * h. c ! i) / real (N * h)" .
  have "overall = (\<Sum>v\<leftarrow>c. v) / real (N * S * h)"
    unfolding ov c_def[symmetric] by (simp add: sum_list_div_const)
  also have "(\<Sum>v\<leftarrow>c. v) = (\<Sum>i<N * S * h. c ! i)"
    using len by (simp add: sum_list_sum_nth lessThan_atLeast0)
  finally have "overall = (\<Sum>i<N * S * h. c ! i) / real (N * h) / real S"
    by (simp add: field_simps)
  with lhs have "overall = sum_list accs / real S" by simp
  moreover have "length accs = S" by (simp add: accs)
  ultimately show ?thesis by simp
qed

theorem overall_is_mean_of_perStock_witness:
  "computePerStockAccuracy \<lparr>shape = [2, 4], vals = [1, 1, 0, 0, 0, 1, 0, 1]\<rparr>
       \<lparr>shape = [2, 4], vals = [9/10, 1/2, 1/5, 3/5, 1/10, 7/10, 4/5, 1/2]\<rparr> 2 2
     = Inr ([3/4, 1/4], 1/2) \<and>
   length [3/4, 1/4 :: real] = 2 \<and> (1/2 :: real) = sum_list [3/4, 1/4] / real (2::nat)"
proof -
  let ?T = "\<lparr>shape = [2, 4], vals = [1, 1, 0, 0, 0, 1, 0, 1 :: real]\<rparr>"
  let ?P = "\<lparr>shape = [2, 4], vals = [9/10, 1/2, 1/5, 3/5, 1/10, 7/10, 4/5, 1/2 :: real]\<rparr>"
  have ev: "computePerStockAccuracy ?T ?P 2 2 = Inr ([3/4, 1/4], 1/2)"
    by (simp add: eval_defs upt_rec)
  have wt: "wf_tensor ?T" and wp: "wf_tensor ?P" by (simp_all add: wf_tensor_def)
  have S: "(0::nat) < 2" by simp
  from overall_is_mean_of_perStock[OF ev wt wp S] ev show ?thesis by blast
qed


subsection \<open>When the evaluator returns\<close>

lemma evaluateTestSet_None: "evaluateTestSet None X y syms h = Inl ModelNotBuilt"
  by (simp add: evaluateTestSet_def predict_def)

lemma evaluateTestSet_rank0:
  "shape (net X) = [] \<Longrightarrow> evaluateTestSet (Some net) X y syms h = Inl TfError"
  by (simp add: evaluateTestSet_def predict_def)

lemma evaluateTestSet_fail:
  assumes "shape (net X) = N # rest"
    and "prod_list (shape (net X)) \<noteq> N * length syms * h \<or> prod_list (shape y) \<noteq> N * length syms * h"
  shows "evaluateTestSet (Some net) X y syms h = Inl TfError"
proof -
  let ?S = "length syms"
  let ?pb = "toInt_bool (tf_greater (net X) (1/2))"
  show ?thesis
  proof (cases "prod_list (shape (net X)) = N * ?S * h")
    case False
    have r1: "tf_reshape ?pb [N, ?S, h] = Inl TfError"
      by (rule reshape_fail) (simp add: shape_ops False)
    show ?thesis
      using assms(1) r1 by (simp add: evaluateTestSet_def predict_def Let_def)
  next
    case True
    have r1: "tf_reshape ?pb [N, ?S, h] = Inr \<lparr>shape = [N, ?S, h], vals = vals ?pb\<rparr>"
      by (rule reshape_ok) (simp add: shape_ops True)
    have r2: "tf_reshape (toInt y) [N, ?S, h] = Inl TfError"
      using assms(2) True by (intro reshape_fail) (simp add: shape_ops)
    show ?thesis
      using assms(1) r1 r2 by (simp add: evaluateTestSet_def predict_def Let_def)
  qed
qed

lemma evaluateTestSet_Inr_sizes:
  assumes "evaluateTestSet (Some net) X y syms h = Inr r" and "shape (net X) = N # rest"
  shows "prod_list (shape (net X)) = N * length syms * h \<and> prod_list (shape y) = N * length syms * h"
  using evaluateTestSet_fail[where net=net and X=X and y=y and syms=syms and h=h, OF assms(2)] assms(1) by auto

lemma vals_correct_nth:
  assumes "i < length a" "i < length b"
  shows "vals (toInt_bool (tf_equal \<lparr>shape = sh, vals = a\<rparr> \<lparr>shape = sh, vals = b\<rparr>)) ! i = (if a ! i = b ! i then 1 else 0)"
  using assms by (simp add: toInt_bool_def tf_equal_def)

lemma sum_list_indicator_div:
  "(\<Sum>k\<leftarrow>xs. real_of_int (if p k then 1 else 0) / real h) = real (length (filter p xs)) / real h"
  by (induction xs) (simp_all add: add_divide_distrib)

lemma majority_iff:
  assumes "c \<le> h"
  shows "1/2 < real c / real h \<longleftrightarrow> h < 2 * c"
proof (cases "h = 0")
  case True with assms show ?thesis by simp
next
  case False
  then show ?thesis by (simp add: field_simps) linarith
qed

subsection \<open>Thresholds\<close>

text \<open>
  Claim C3. In \<open>evaluateTestSet\<close> the binarized prediction of an entry is 1 exactly when
  its probability is strictly greater than one half, and the timeline bit of sample \<open>n\<close>
  and asset \<open>s\<close> is 1 exactly when strictly more than half of the \<open>h\<close> offsets are right,
  an offset being right when the binarized prediction equals the truncated truth.
  A probability of one half gives 0, and so does a sample with half of its offsets right.
\<close>

theorem threshold_and_timeline_strict:
  assumes ev: "evaluateTestSet (Some net) X yt syms h = Inr r"
    and sh: "shape (net X) = N # rest"
    and wp: "wf_tensor (net X)" and wt: "wf_tensor yt"
    and n: "n < N" and s: "s < length syms"
  shows "(\<forall>i < length (vals (net X)).
            vals (toInt_bool (tf_greater (net X) (1/2))) ! i = (if 1/2 < vals (net X) ! i then 1 else 0)) \<and>
         perStockTimeline r ! s ! n =
           (if h < 2 * length (filter (\<lambda>k. (if 1/2 < vals (net X) ! ((n * length syms + s) * h + k) then 1 else 0)
                                              = trunc (vals yt ! ((n * length syms + s) * h + k))) [0..<h])
            then 1 else 0)"
proof -
  let ?S = "length syms"
  let ?P = "net X"
  let ?pb = "vals (toInt_bool (tf_greater ?P (1/2)))"
  let ?tr = "vals (toInt yt)"
  let ?idx = "\<lambda>k. (n * ?S + s) * h + k"
  let ?ok = "\<lambda>k. (if 1/2 < vals ?P ! ?idx k then 1 else 0) = trunc (vals yt ! ?idx k)"
  have sz: "prod_list (shape ?P) = N * ?S * h" "prod_list (shape yt) = N * ?S * h"
    using evaluateTestSet_Inr_sizes[where net=net and X=X, OF ev sh] by simp_all
  have lp: "length (vals ?P) = N * ?S * h" and lt: "length (vals yt) = N * ?S * h"
    using wp wt sz by (simp_all add: wf_tensor_def)
  have first: "\<forall>i < length (vals ?P). ?pb ! i = (if 1/2 < vals ?P ! i then 1 else 0)"
    by (simp add: vals_toInt_bool_greater)
  have idx: "?idx k < N * ?S * h" if "k < h" for k
    using grid_index_less[OF grid_index_less[OF n s] that] .
  from evaluateTestSet_result[where net=net and X=X, OF sh sz] ev
  have "perStockTimeline r = map (\<lambda>s. map (\<lambda>n. 
             if 1/2 < (\<Sum>k\<leftarrow>[0..<h]. real_of_int (vals (toInt_bool (tf_equal \<lparr>shape = [N, ?S, h], vals = ?pb\<rparr> \<lparr>shape = [N, ?S, h], vals = ?tr\<rparr>)) ! ((n * ?S + s) * h + k)) / real h) then 1 else 0) [0..<N]) [0..<?S]"
    by auto
  then have tl: "perStockTimeline r ! s ! n =
      (if 1/2 < (\<Sum>k\<leftarrow>[0..<h]. real_of_int (vals (toInt_bool (tf_equal \<lparr>shape = [N, ?S, h], vals = ?pb\<rparr> \<lparr>shape = [N, ?S, h], vals = ?tr\<rparr>)) ! ?idx k) / real h) then 1 else 0)"
    using n s by simp
  have "map (\<lambda>k. real_of_int (vals (toInt_bool (tf_equal \<lparr>shape = [N, ?S, h], vals = ?pb\<rparr> \<lparr>shape = [N, ?S, h], vals = ?tr\<rparr>)) ! ?idx k) / real h) [0..<h]
      = map (\<lambda>k. real_of_int (if ?ok k then 1 else 0) / real h) [0..<h]"
  proof (rule map_cong[OF refl])
    fix k assume "k \<in> set [0..<h]"
    then have k: "k < h" by simp
    have a: "?idx k < length ?pb" using idx[OF k] lp by (simp add: vals_toInt_bool_greater)
    have b: "?idx k < length ?tr" using idx[OF k] lt by (simp add: toInt_def)
    have c: "?pb ! ?idx k = (if 1/2 < vals ?P ! ?idx k then 1 else 0)"
      using first idx[OF k] lp by simp
    have d: "?tr ! ?idx k = trunc (vals yt ! ?idx k)"
      using idx[OF k] lt by (simp add: toInt_def)
    show "real_of_int (vals (toInt_bool (tf_equal \<lparr>shape = [N, ?S, h], vals = ?pb\<rparr> \<lparr>shape = [N, ?S, h], vals = ?tr\<rparr>)) ! ?idx k) / real h
        = real_of_int (if ?ok k then 1 else 0) / real h"
      unfolding vals_correct_nth[OF a b] c d ..
  qed
  then have "(\<Sum>k\<leftarrow>[0..<h]. real_of_int (vals (toInt_bool (tf_equal \<lparr>shape = [N, ?S, h], vals = ?pb\<rparr> \<lparr>shape = [N, ?S, h], vals = ?tr\<rparr>)) ! ?idx k) / real h)
      = real (length (filter ?ok [0..<h])) / real h"
    by (simp only: sum_list_indicator_div)
  moreover have "length (filter ?ok [0..<h]) \<le> h"
    using length_filter_le[of ?ok "[0..<h]"] by simp
  ultimately have "perStockTimeline r ! s ! n = (if h < 2 * length (filter ?ok [0..<h]) then 1 else 0)"
    unfolding tl by (simp only: majority_iff)
  with first show ?thesis by blast
qed

theorem threshold_and_timeline_strict_witness:
  "evaluateTestSet (Some (\<lambda>_::unit. demo_preds)) () demo_truths [''A''] 2 = Inr demo_result \<and>
   wf_tensor demo_preds \<and> wf_tensor demo_truths \<and>
   vals demo_preds ! 1 = 1/2 \<and>
   vals (toInt_bool (tf_greater demo_preds (1/2))) ! 1 = 0 \<and>
   perStockTimeline demo_result ! 0 ! 0 = 0"
proof -
  have ev: "evaluateTestSet (Some (\<lambda>_::unit. demo_preds)) () demo_truths [''A''] 2 = Inr demo_result"
    by (simp add: eval_defs upt_rec)
  have sh: "shape ((\<lambda>_::unit. demo_preds) ()) = 2 # [2]" by (simp add: demo_preds_def)
  have wp: "wf_tensor ((\<lambda>_::unit. demo_preds) ())" and wt: "wf_tensor demo_truths"
    by (simp_all add: eval_defs)
  have n: "(0::nat) < 2" and s: "0 < length [''A'']" by simp_all
  from threshold_and_timeline_strict[where net = "\<lambda>_::unit. demo_preds" and X = "()", OF ev sh wp wt n s]
  have "vals (toInt_bool (tf_greater demo_preds (1/2))) ! 1 = (if 1/2 < vals demo_preds ! 1 then 1 else 0)"
    and "perStockTimeline demo_result ! 0 ! 0 =
           (if 2 < 2 * length (filter (\<lambda>k. (if 1/2 < vals demo_preds ! ((0 * length [''A''] + 0) * 2 + k) then 1 else 0)
                                              = trunc (vals demo_truths ! ((0 * length [''A''] + 0) * 2 + k))) [0..<2])
            then 1 else 0)"
    by (simp_all add: demo_preds_def)
  then have "vals (toInt_bool (tf_greater demo_preds (1/2))) ! 1 = 0"
    and "perStockTimeline demo_result ! 0 ! 0 = 0"
    by (simp_all add: demo_preds_def demo_truths_def trunc_def upt_rec)
  moreover have "vals demo_preds ! 1 = 1/2" by (simp add: demo_preds_def)
  ultimately show ?thesis using ev wp wt by simp
qed


subsection \<open>The predictions that are returned\<close>

text \<open>
  Claim C4, as amended. The component \<open>predArr\<close> of the result (the specification's
  \<open>rawPredictions\<close>) has shape \<open>[N][S][h]\<close> in asset-major, offset-minor order and
  holds the thresholded predictions: entry \<open>(n, s, k)\<close> is 1 if the probability at
  \<open>(n * S + s) * h + k\<close> is strictly greater than one half and 0 otherwise. The
  probabilities themselves are not returned.
\<close>

theorem predArr_is_thresholded:
  assumes ev: "evaluateTestSet (Some net) X yt syms h = Inr r"
    and sh: "shape (net X) = N # rest"
    and wp: "wf_tensor (net X)"
    and n: "n < N" and s: "s < length syms" and k: "k < h"
  shows "length (predArr r) = N \<and> length (predArr r ! n) = length syms \<and> length (predArr r ! n ! s) = h \<and>
         predArr r ! n ! s ! k = (if 1/2 < vals (net X) ! ((n * length syms + s) * h + k) then 1 else 0)"
proof -
  let ?S = "length syms"
  have sz: "prod_list (shape (net X)) = N * ?S * h" "prod_list (shape yt) = N * ?S * h"
    using evaluateTestSet_Inr_sizes[where net=net and X=X, OF ev sh] by simp_all
  have lp: "length (vals (net X)) = N * ?S * h"
    using wp sz by (simp add: wf_tensor_def)
  have idx: "(n * ?S + s) * h + k < N * ?S * h"
    using grid_index_less[OF grid_index_less[OF n s] k] .
  from evaluateTestSet_result[where net=net and X=X, OF sh sz] ev
  have "predArr r = map (\<lambda>n. map (\<lambda>s. map (\<lambda>k. vals (toInt_bool (tf_greater (net X) (1/2))) ! ((n * ?S + s) * h + k)) [0..<h]) [0..<?S]) [0..<N]"
    by auto
  then show ?thesis
    using n s k idx lp by (simp add: vals_toInt_bool_greater)
qed

theorem predArr_is_thresholded_witness:
  "evaluateTestSet (Some (\<lambda>_::unit. demo_preds)) () demo_truths [''A''] 2 = Inr demo_result \<and>
   wf_tensor demo_preds \<and> vals demo_preds ! 3 = 3/5 \<and> predArr demo_result ! 1 ! 0 ! 1 = 1"
proof -
  have ev: "evaluateTestSet (Some (\<lambda>_::unit. demo_preds)) () demo_truths [''A''] 2 = Inr demo_result"
    by (simp add: eval_defs upt_rec)
  have sh: "shape ((\<lambda>_::unit. demo_preds) ()) = 2 # [2]" by (simp add: demo_preds_def)
  have wp: "wf_tensor ((\<lambda>_::unit. demo_preds) ())" by (simp add: eval_defs)
  have n: "(1::nat) < 2" and s: "0 < length [''A'']" and k: "(1::nat) < 2" by simp_all
  from predArr_is_thresholded[where net = "\<lambda>_::unit. demo_preds" and X = "()", OF ev sh wp n s k]
  have "predArr demo_result ! 1 ! 0 ! 1 = (if 1/2 < vals demo_preds ! ((1 * length [''A''] + 0) * 2 + 1) then 1 else 0)"
    by simp
  then have "predArr demo_result ! 1 ! 0 ! 1 = 1" by (simp add: demo_preds_def)
  moreover have "vals demo_preds ! 3 = 3/5" by (simp add: demo_preds_def)
  ultimately show ?thesis using ev wp by simp
qed

text \<open>
  Claim C4 as stated fails: for the probabilities 0.9 and 0.2 of one sample, one asset
  and two offsets, \<open>predArr\<close> holds 1 and 0.
\<close>

theorem rawPredictions_counterexample:
  "evaluateTestSet (Some (\<lambda>_::unit. \<lparr>shape = [1, 2], vals = [9/10, 1/5]\<rparr>)) ()
       \<lparr>shape = [1, 2], vals = [1, 0]\<rparr> [''A''] 2
     = Inr \<lparr>perStockAcc = [1], overallAcc = 1, perStockTimeline = [[1]],
            predArr = [[[1, 0]]], truthArr = [[[1, 0]]]\<rparr> \<and>
   map (map (map real_of_int)) [[[1, 0]]] \<noteq> [[[9/10, 1/5]]]"
  by (simp add: eval_defs upt_rec)


subsection \<open>Failures of the evaluator\<close>

text \<open>
  Claim C8, as amended. \<open>evaluateTestSet\<close> throws in exactly two situations: with
  \<open>Model not built.\<close> when no model has been built, and with the untyped error of the
  tensor library's \<open>reshape\<close> when the prediction tensor has no first dimension or the
  number of entries of the prediction tensor or of the truth tensor is not
  \<open>N * S * h\<close>, \<open>N\<close> being the first dimension of the prediction tensor. In every
  other case it returns a result.
\<close>

theorem evaluateTestSet_failure_paths:
  "(evaluateTestSet model X yt syms h = Inl e \<longleftrightarrow>
      (case model of
         None \<Rightarrow> e = ModelNotBuilt
       | Some net \<Rightarrow> e = TfError \<and>
           (case shape (net X) of
              [] \<Rightarrow> True
            | N # _ \<Rightarrow> \<not> (prod_list (shape (net X)) = N * length syms * h \<and>
                           prod_list (shape yt) = N * length syms * h)))) \<and>
   ((\<exists>r. evaluateTestSet model X yt syms h = Inr r) \<longleftrightarrow>
      (case model of
         None \<Rightarrow> False
       | Some net \<Rightarrow>
           (case shape (net X) of
              [] \<Rightarrow> False
            | N # _ \<Rightarrow> prod_list (shape (net X)) = N * length syms * h \<and>
                       prod_list (shape yt) = N * length syms * h)))"
proof (cases model)
  case None
  then show ?thesis by (auto simp: evaluateTestSet_None)
next
  case (Some net)
  show ?thesis
  proof (cases "shape (net X)")
    case Nil
    then show ?thesis using Some by (auto simp: evaluateTestSet_rank0)
  next
    case (Cons N rest)
    show ?thesis
    proof (cases "prod_list (shape (net X)) = N * length syms * h \<and>
                           prod_list (shape yt) = N * length syms * h")
      case True
      from evaluateTestSet_result[where net=net and X=X, OF Cons conjunct1[OF True] conjunct2[OF True]]
      obtain r where "evaluateTestSet (Some net) X yt syms h = Inr r" by blast
      then show ?thesis using Some Cons True by simp
    next
      case False
      then have "evaluateTestSet (Some net) X yt syms h = Inl TfError"
        using evaluateTestSet_fail[where net=net and X=X and y=yt and syms=syms and h=h, OF Cons] by blast
      then show ?thesis using Some Cons False by auto
    qed
  qed
qed

theorem evaluateTestSet_failure_paths_witness:
  "evaluateTestSet None () demo_truths [''A''] 2 = Inl ModelNotBuilt \<and>
   evaluateTestSet (Some (\<lambda>_::unit. demo_preds)) () demo_truths [''A'', ''B''] 2 = Inl TfError \<and>
   (\<exists>r. evaluateTestSet (Some (\<lambda>_::unit. demo_preds)) () demo_truths [''A''] 2 = Inr r)"
proof -
  from evaluateTestSet_failure_paths[where model = None and X = "()" and yt = demo_truths
      and syms = "[''A'']" and h = 2 and e = ModelNotBuilt]
  have a: "evaluateTestSet None () demo_truths [''A''] 2 = Inl ModelNotBuilt" by simp
  from evaluateTestSet_failure_paths[where model = "Some (\<lambda>_::unit. demo_preds)" and X = "()"
      and yt = demo_truths and syms = "[''A'', ''B'']" and h = 2 and e = TfError]
  have b: "evaluateTestSet (Some (\<lambda>_::unit. demo_preds)) () demo_truths [''A'', ''B''] 2 = Inl TfError"
    by (simp add: demo_preds_def)
  from evaluateTestSet_failure_paths[where model = "Some (\<lambda>_::unit. demo_preds)" and X = "()"
      and yt = demo_truths and syms = "[''A'']" and h = 2]
  have c: "\<exists>r. evaluateTestSet (Some (\<lambda>_::unit. demo_preds)) () demo_truths [''A''] 2 = Inr r"
    by (simp add: demo_preds_def demo_truths_def)
  from a b c show ?thesis by blast
qed

text \<open>
  Claim C8 as stated fails in both directions: without a model the evaluator fails
  though no shape is wrong, and a truth tensor of shape \<open>[1, 4]\<close> is accepted for two
  assets and one offset, where the declared width is 2.
\<close>

theorem shape_error_only_counterexample:
  "evaluateTestSet (None :: (unit \<Rightarrow> real tensor) option) () \<lparr>shape = [2, 2], vals = [1, 1, 0, 0]\<rparr>
       [''A'', ''B''] 1 = Inl ModelNotBuilt \<and>
   evaluateTestSet (Some (\<lambda>_::unit. \<lparr>shape = [2, 2], vals = [9/10, 1/2, 1/5, 3/5]\<rparr>)) ()
       \<lparr>shape = [1, 4], vals = [1, 1, 0, 0]\<rparr> [''A'', ''B''] 1
     = Inr \<lparr>perStockAcc = [1, 0], overallAcc = 1/2, perStockTimeline = [[1, 1], [0, 0]],
            predArr = [[[1], [0]], [[0], [1]]], truthArr = [[[1], [1]], [[0], [0]]]\<rparr>"
  by (simp add: eval_defs upt_rec)

section \<open>Properties of the loader\<close>

subsection \<open>Iterations that may throw\<close>

lemma mapE_Inr_iff: "mapE f xs = Inr ys \<longleftrightarrow> map f xs = map Inr ys"
proof (induction xs arbitrary: ys)
  case Nil
  then show ?case by auto
next
  case (Cons x xs)
  show ?case
  proof (cases ys)
    case Nil
    then show ?thesis by (simp split: sum.splits)
  next
    case (Cons y ys')
    then show ?thesis using Cons.IH[of ys'] by (auto split: sum.splits)
  qed
qed

lemma mapE_total:
  assumes "\<And>x. x \<in> set xs \<Longrightarrow> \<exists>y. f x = Inr y"
  shows "mapE f xs = Inr (map (\<lambda>x. projr (f x)) xs)"
  using assms by (induction xs) (fastforce split: sum.splits)+

lemma mapE_length: "mapE f xs = Inr ys \<Longrightarrow> length ys = length xs"
  by (metis length_map mapE_Inr_iff)

lemma mapE_nth: "mapE f xs = Inr ys \<Longrightarrow> j < length xs \<Longrightarrow> f (xs ! j) = Inr (ys ! j)"
  by (metis length_map mapE_Inr_iff nth_map)

lemma concat_nth_uniform:
  assumes "\<forall>l \<in> set ls. length l = h" "s < length ls" "k < h"
  shows "concat ls ! (s * h + k) = ls ! s ! k"
  using assms
proof (induction ls arbitrary: s)
  case Nil
  then show ?case by simp
next
  case (Cons l ls)
  show ?case
  proof (cases s)
    case 0
    with Cons.prems show ?thesis by (simp add: nth_append)
  next
    case (Suc s')
    with Cons.prems have "concat ls ! (s' * h + k) = ls ! s' ! k"
      by (intro Cons.IH) auto
    with Suc Cons.prems show ?thesis by (simp add: nth_append)
  qed
qed

lemma concat_length_uniform:
  "\<forall>l \<in> set ls. length l = h \<Longrightarrow> length (concat ls) = length ls * h"
  by (induction ls) auto


lemma windowBad_Some:
  assumes "\<forall>t \<in> set ts. t < length arr"
  shows "windowBad (Some arr) ts = Inr (\<exists>t \<in> set ts. isNaN (s_open (arr ! t)) \<or> isNaN (s_close (arr ! t)))"
  using assms by (induction ts) (auto simp: slotAt_def)

lemma futureBad_Some:
  assumes "\<forall>off \<in> set offs. i + off < length arr"
  shows "futureBad (Some arr) i offs = Inr (\<exists>off \<in> set offs. isNaN (s_close (arr ! (i + off))))"
  using assms by (induction offs) (auto simp: slotAt_def)

lemma anchorBad_wf:
  assumes "\<forall>symb \<in> set syms. \<exists>arr. perSymbolSeries ldr symb = Some arr \<and> length arr = D"
    and "i + forecastHorizon ldr < D"
  shows "anchorBad ldr seqStart i syms =
     Inr (\<exists>symb \<in> set syms. \<exists>arr. perSymbolSeries ldr symb = Some arr \<and>
            ((\<exists>t \<in> {seqStart..i}. isNaN (s_open (arr ! t)) \<or> isNaN (s_close (arr ! t))) \<or>
             (\<exists>off \<in> {1..forecastHorizon ldr}. isNaN (s_close (arr ! (i + off))))))"
  using assms(1)
proof (induction syms)
  case Nil
  then show ?case by simp
next
  case (Cons symb rest)
  then obtain arr where arr: "perSymbolSeries ldr symb = Some arr" "length arr = D" by auto
  have w: "windowBad (Some arr) [seqStart..<Suc i] =
      Inr (\<exists>t \<in> {seqStart..i}. isNaN (s_open (arr ! t)) \<or> isNaN (s_close (arr ! t)))"
    using arr(2) assms(2) by (subst windowBad_Some) (auto simp: atLeastLessThanSuc_atLeastAtMost)
  have f: "futureBad (Some arr) i [1..<Suc (forecastHorizon ldr)] =
      Inr (\<exists>off \<in> {1..forecastHorizon ldr}. isNaN (s_close (arr ! (i + off))))"
    using arr(2) assms(2) by (subst futureBad_Some) (auto simp: atLeastLessThanSuc_atLeastAtMost)
  have IH: "anchorBad ldr seqStart i rest =
     Inr (\<exists>symb \<in> set rest. \<exists>arr. perSymbolSeries ldr symb = Some arr \<and>
            ((\<exists>t \<in> {seqStart..i}. isNaN (s_open (arr ! t)) \<or> isNaN (s_close (arr ! t))) \<or>
             (\<exists>off \<in> {1..forecastHorizon ldr}. isNaN (s_close (arr ! (i + off))))))"
    using Cons by simp
  show ?case
    unfolding anchorBad.simps arr(1) w f IH by (auto simp: arr(1))
qed

lemma wf_loaderD:
  assumes "wf_loader ldr" "symb \<in> set (symbols ldr)"
  obtains arr nrm where "perSymbolSeries ldr symb = Some arr" "length arr = length (dates ldr)"
    "normalizers ldr symb = Some nrm"
  using assms unfolding wf_loader_def by (auto split: option.splits)

lemma featurePair_wf:
  assumes "wf_loader ldr" "symb \<in> set (symbols ldr)" "t < length (dates ldr)"
  shows "\<exists>y. featurePair ldr t symb = Inr y"
proof -
  from assms(1,2) obtain arr nrm where "perSymbolSeries ldr symb = Some arr"
    "length arr = length (dates ldr)" "normalizers ldr symb = Some nrm"
    by (rule wf_loaderD)
  with assms(3) show ?thesis by (simp add: featurePair_def slotAt_def)
qed

lemma inputRow_wf:
  assumes "wf_loader ldr" "t < length (dates ldr)"
  shows "\<exists>y. inputRow ldr t = Inr y"
proof -
  have "mapE (featurePair ldr t) (symbols ldr) = Inr (map (\<lambda>x. projr (featurePair ldr t x)) (symbols ldr))"
    by (rule mapE_total) (rule featurePair_wf[OF assms(1) _ assms(2)])
  then show ?thesis by (simp add: inputRow_def)
qed

lemma sampleInput_wf:
  assumes "wf_loader ldr" "i < length (dates ldr)"
  shows "\<exists>y. sampleInput ldr seqStart i = Inr y"
proof -
  have "mapE (inputRow ldr) [seqStart..<Suc i] = Inr (map (\<lambda>x. projr (inputRow ldr x)) [seqStart..<Suc i])"
  proof (rule mapE_total)
    fix t assume "t \<in> set [seqStart..<Suc i]"
    then have "t < length (dates ldr)" using assms(2) by auto
    then show "\<exists>y. inputRow ldr t = Inr y" by (rule inputRow_wf[OF assms(1)])
  qed
  then show ?thesis by (simp add: sampleInput_def)
qed

lemma symbolLabels_wf:
  assumes "wf_loader ldr" "symb \<in> set (symbols ldr)" "i + forecastHorizon ldr < length (dates ldr)"
  shows "\<exists>y. symbolLabels ldr i symb = Inr y"
proof -
  from assms(1,2) obtain arr nrm where arr: "perSymbolSeries ldr symb = Some arr"
    "length arr = length (dates ldr)" "normalizers ldr symb = Some nrm"
    by (rule wf_loaderD)
  let ?f = "\<lambda>off. case slotAt arr (i + off) of
                              None \<Rightarrow> Inl TypeError
                            | Some vF \<Rightarrow> Inr (if jgt (s_close vF) (s_close (arr ! i)) then (1::int) else 0)"
  have "mapE ?f [1..<Suc (forecastHorizon ldr)] = Inr (map (\<lambda>x. projr (?f x)) [1..<Suc (forecastHorizon ldr)])"
  proof (rule mapE_total)
    fix off assume "off \<in> set [1..<Suc (forecastHorizon ldr)]"
    then have "i + off < length arr" using assms(3) arr(2) by auto
    then show "\<exists>y. ?f off = Inr y" by (simp add: slotAt_def)
  qed
  moreover have "slotAt arr i = Some (arr ! i)" using assms(3) arr(2) by (simp add: slotAt_def)
  ultimately show ?thesis by (simp add: symbolLabels_def arr(1))
qed

lemma sampleOutput_wf:
  assumes "wf_loader ldr" "i + forecastHorizon ldr < length (dates ldr)"
  shows "\<exists>y. sampleOutput ldr i = Inr y"
proof -
  have "mapE (symbolLabels ldr i) (symbols ldr) = Inr (map (\<lambda>x. projr (symbolLabels ldr i x)) (symbols ldr))"
    by (rule mapE_total) (rule symbolLabels_wf[OF assms(1) _ assms(2)])
  then show ?thesis by (simp add: sampleOutput_def)
qed

lemma anchorBad_loader:
  assumes "wf_loader ldr" "i + forecastHorizon ldr < length (dates ldr)"
  shows "anchorBad ldr seqStart i (symbols ldr) =
     Inr (\<exists>symb \<in> set (symbols ldr). \<exists>arr. perSymbolSeries ldr symb = Some arr \<and>
            ((\<exists>t \<in> {seqStart..i}. isNaN (s_open (arr ! t)) \<or> isNaN (s_close (arr ! t))) \<or>
             (\<exists>off \<in> {1..forecastHorizon ldr}. isNaN (s_close (arr ! (i + off))))))"
proof (rule anchorBad_wf[OF _ assms(2)])
  show "\<forall>symb\<in>set (symbols ldr). \<exists>arr. perSymbolSeries ldr symb = Some arr \<and> length arr = length (dates ldr)"
    using assms(1) by (auto elim: wf_loaderD)
qed

lemma anchorSample_wf:
  assumes wf: "wf_loader ldr"
  shows "anchorSample ldr i =
     (if 0 \<le> int i - int (sequenceLength ldr) + 1 \<and> i + forecastHorizon ldr < length (dates ldr) \<and>
         \<not> (\<exists>symb \<in> set (symbols ldr). \<exists>arr. perSymbolSeries ldr symb = Some arr \<and>
            ((\<exists>t \<in> {nat (int i - int (sequenceLength ldr) + 1)..i}.
                 isNaN (s_open (arr ! t)) \<or> isNaN (s_close (arr ! t))) \<or>
             (\<exists>off \<in> {1..forecastHorizon ldr}. isNaN (s_close (arr ! (i + off))))))
      then Inr (Some (projr (sampleInput ldr (nat (int i - int (sequenceLength ldr) + 1)) i),
                      projr (sampleOutput ldr i), dates ldr ! i))
      else Inr None)"
proof -
  let ?st = "int i - int (sequenceLength ldr) + 1"
  let ?bad = "\<exists>symb \<in> set (symbols ldr). \<exists>arr. perSymbolSeries ldr symb = Some arr \<and>
            ((\<exists>t \<in> {nat ?st..i}. isNaN (s_open (arr ! t)) \<or> isNaN (s_close (arr ! t))) \<or>
             (\<exists>off \<in> {1..forecastHorizon ldr}. isNaN (s_close (arr ! (i + off)))))"
  show ?thesis
  proof (cases "0 \<le> ?st \<and> i + forecastHorizon ldr < length (dates ldr)")
    case False
    then show ?thesis by (auto simp: anchorSample_def Let_def)
  next
    case True
    then have a: "0 \<le> ?st" and b: "i + forecastHorizon ldr < length (dates ldr)" by simp_all
    from b have i: "i < length (dates ldr)" by simp
    obtain inp where inp: "sampleInput ldr (nat ?st) i = Inr inp"
      using sampleInput_wf[OF wf i] by blast
    obtain out where out: "sampleOutput ldr i = Inr out"
      using sampleOutput_wf[OF wf b] by blast
    define B where "B = ?bad"
    have ab: "anchorBad ldr (nat ?st) i (symbols ldr) = Inr B"
      unfolding B_def by (rule anchorBad_loader[OF wf b])
    have "anchorSample ldr i = (if B then Inr None else Inr (Some (inp, out, dates ldr ! i)))"
      using a b by (cases B) (simp_all add: anchorSample_def Let_def ab inp out)
    then show ?thesis
      unfolding B_def inp out using True by simp
  qed
qed

lemma collectSamples_wf:
  assumes wf: "wf_loader ldr"
  shows "collectSamples ldr is = Inr (List.map_filter (\<lambda>i. projr (anchorSample ldr i)) is)"
proof (induction "is")
  case Nil
  show ?case by (simp add: List.map_filter_simps)
next
  case (Cons i rest)
  obtain r where r: "anchorSample ldr i = Inr r"
    using anchorSample_wf[OF wf, of i] by (auto split: if_splits)
  show ?case
    by (cases r) (simp_all add: r Cons.IH List.map_filter_simps)
qed

subsection \<open>What a pushed sample was built from\<close>

lemma anchorSample_SomeD:
  assumes "anchorSample ldr i = Inr (Some (inp, out, d))"
  shows "sampleOutput ldr i = Inr out"
    and "sampleInput ldr (nat (int i - int (sequenceLength ldr) + 1)) i = Inr inp"
    and "d = dates ldr ! i"
    and "0 \<le> int i - int (sequenceLength ldr) + 1"
    and "i + forecastHorizon ldr < length (dates ldr)"
    and "anchorBad ldr (nat (int i - int (sequenceLength ldr) + 1)) i (symbols ldr) = Inr False"
  using assms
  by (auto simp: anchorSample_def Let_def split: if_splits sum.splits bool.splits)

lemma symbolLabels_InrD:
  assumes "symbolLabels ldr i symb = Inr ls"
  obtains arr where "perSymbolSeries ldr symb = Some arr" "i < length arr"
    "length ls = forecastHorizon ldr"
    "\<And>off. 1 \<le> off \<Longrightarrow> off \<le> forecastHorizon ldr \<Longrightarrow>
        i + off < length arr \<and>
        ls ! (off - 1) = (if jgt (s_close (arr ! (i + off))) (s_close (arr ! i)) then 1 else 0)"
proof -
  from assms obtain arr where arr: "perSymbolSeries ldr symb = Some arr"
    by (auto simp: symbolLabels_def split: option.splits)
  from assms arr have i: "i < length arr"
    by (auto simp: symbolLabels_def slotAt_def split: option.splits if_splits)
  let ?g = "\<lambda>off. case slotAt arr (i + off) of
                              None \<Rightarrow> Inl TypeError
                            | Some vF \<Rightarrow> Inr (if jgt (s_close vF) (s_close (arr ! i)) then (1::int) else 0)"
  from assms arr i have m: "mapE ?g [1..<Suc (forecastHorizon ldr)] = Inr ls"
    by (simp add: symbolLabels_def slotAt_def)
  have len: "length ls = forecastHorizon ldr"
    using mapE_length[OF m] by simp
  have nth: "i + off < length arr \<and>
        ls ! (off - 1) = (if jgt (s_close (arr ! (i + off))) (s_close (arr ! i)) then 1 else 0)"
    if "1 \<le> off" "off \<le> forecastHorizon ldr" for off
  proof -
    have j: "off - 1 < length [1..<Suc (forecastHorizon ldr)]" using that by simp
    have "[1..<Suc (forecastHorizon ldr)] ! (off - 1) = 1 + (off - 1)"
      using that by (intro nth_upt) simp
    then have "[1..<Suc (forecastHorizon ldr)] ! (off - 1) = off" using that by simp
    with mapE_nth[OF m j] have "?g off = Inr (ls ! (off - 1))" by simp
    then show ?thesis by (auto simp: slotAt_def split: if_splits)
  qed
  show ?thesis using that[OF arr i len nth] .
qed

subsection \<open>The worked example\<close>

lemmas demo_defs = demo_loader_def demo_cfg_def DataLoader_def demo_dates_def demo_series_A_def
  demo_series_B_def mkSlot_def

lemmas prepare_defs = anchorSample_def Let_def slotAt_def sampleInput_def inputRow_def
  featurePair_def normalizeOpen_def normalizeClose_def sampleOutput_def symbolLabels_def

lemma demo_wf: "wf_loader demo_loader"
  by (simp add: wf_loader_def demo_defs)

lemma demo_anchor_2:
  "anchorSample demo_loader 2 =
     Inr (Some ([[Num 0, Num (2 / 5), Num 0, Num 0], [Num 0, Num 0, Num 1, Num (1 / 3)]],
                [1, 0], ''2024-01-03''))"
  by (simp add: prepare_defs demo_defs upt_rec)

lemma demo_gap_wf: "wf_loader demo_gap_loader"
  by (simp add: wf_loader_def demo_gap_loader_def demo_defs)

subsection \<open>Which anchors give a sample\<close>

text \<open>
  Claim C2. In a well-formed loader the round of anchor \<open>i\<close> never throws, and it pushes
  a sample if and only if \<open>i - L + 1 \<ge> 0\<close>, \<open>i + h < D\<close>, and for every symbol every
  position of the window \<open>i - L + 1 .. i\<close> has an open and a close that are not missing
  and every position \<open>i + 1 .. i + h\<close> has a close that is not missing. The samples
  collected over the date axis are exactly the samples of these rounds, in order, so no
  sample that is emitted touches a missing slot.
\<close>

theorem anchor_emitted_iff_valid:
  assumes wf: "wf_loader ldr"
  shows "((\<exists>smp. anchorSample ldr i = Inr (Some smp)) \<or> anchorSample ldr i = Inr None) \<and>
    ((\<exists>smp. anchorSample ldr i = Inr (Some smp)) \<longleftrightarrow>
       (0 \<le> int i - int (sequenceLength ldr) + 1 \<and>
        i + forecastHorizon ldr < length (dates ldr) \<and>
        (\<forall>symb \<in> set (symbols ldr). \<forall>arr. perSymbolSeries ldr symb = Some arr \<longrightarrow>
           (\<forall>t \<in> {nat (int i - int (sequenceLength ldr) + 1)..i}.
              \<not> isNaN (s_open (arr ! t)) \<and> \<not> isNaN (s_close (arr ! t))) \<and>
           (\<forall>off \<in> {1..forecastHorizon ldr}. \<not> isNaN (s_close (arr ! (i + off))))))) \<and>
    collectSamples ldr [0..<length (dates ldr)] =
      Inr (List.map_filter (\<lambda>i. projr (anchorSample ldr i)) [0..<length (dates ldr)])"
proof -
  let ?st = "int i - int (sequenceLength ldr) + 1"
  let ?bad = "\<exists>symb \<in> set (symbols ldr). \<exists>arr. perSymbolSeries ldr symb = Some arr \<and>
            ((\<exists>t \<in> {nat ?st..i}. isNaN (s_open (arr ! t)) \<or> isNaN (s_close (arr ! t))) \<or>
             (\<exists>off \<in> {1..forecastHorizon ldr}. isNaN (s_close (arr ! (i + off)))))"
  have r: "anchorSample ldr i =
     (if 0 \<le> ?st \<and> i + forecastHorizon ldr < length (dates ldr) \<and> \<not> ?bad
      then Inr (Some (projr (sampleInput ldr (nat ?st) i), projr (sampleOutput ldr i), dates ldr ! i))
      else Inr None)"
    by (rule anchorSample_wf[OF wf])
  have 1: "(\<exists>smp. anchorSample ldr i = Inr (Some smp)) \<or> anchorSample ldr i = Inr None"
    unfolding r by simp
  have "(\<exists>smp. anchorSample ldr i = Inr (Some smp)) \<longleftrightarrow>
      (0 \<le> ?st \<and> i + forecastHorizon ldr < length (dates ldr) \<and> \<not> ?bad)"
    unfolding r by simp
  also have "\<not> ?bad \<longleftrightarrow> (\<forall>symb \<in> set (symbols ldr). \<forall>arr. perSymbolSeries ldr symb = Some arr \<longrightarrow>
           (\<forall>t \<in> {nat ?st..i}. \<not> isNaN (s_open (arr ! t)) \<and> \<not> isNaN (s_close (arr ! t))) \<and>
           (\<forall>off \<in> {1..forecastHorizon ldr}. \<not> isNaN (s_close (arr ! (i + off)))))"
    by blast
  finally have 2: "(\<exists>smp. anchorSample ldr i = Inr (Some smp)) \<longleftrightarrow>
       (0 \<le> ?st \<and> i + forecastHorizon ldr < length (dates ldr) \<and>
        (\<forall>symb \<in> set (symbols ldr). \<forall>arr. perSymbolSeries ldr symb = Some arr \<longrightarrow>
           (\<forall>t \<in> {nat ?st..i}. \<not> isNaN (s_open (arr ! t)) \<and> \<not> isNaN (s_close (arr ! t))) \<and>
           (\<forall>off \<in> {1..forecastHorizon ldr}. \<not> isNaN (s_close (arr ! (i + off))))))" .
  from 1 2 collectSamples_wf[OF wf] show ?thesis by blast
qed

theorem anchor_emitted_iff_valid_witness:
  "wf_loader demo_loader \<and> wf_loader demo_gap_loader \<and>
   anchorSample demo_loader 0 = Inr None \<and>
   (\<exists>smp. anchorSample demo_loader 1 = Inr (Some smp)) \<and>
   anchorSample demo_loader 5 = Inr None \<and>
   (\<exists>smp. anchorSample demo_gap_loader 1 = Inr (Some smp)) \<and>
   anchorSample demo_gap_loader 2 = Inr None \<and>
   anchorSample demo_gap_loader 3 = Inr None"
proof -
  note th = anchor_emitted_iff_valid[OF demo_wf] 
  note tg = anchor_emitted_iff_valid[OF demo_gap_wf]
  have "\<not> (\<exists>smp. anchorSample demo_loader 0 = Inr (Some smp))"
    using th[of 0] by (simp add: demo_defs)
  with th[of 0] have a: "anchorSample demo_loader 0 = Inr None" by blast
  have b: "\<exists>smp. anchorSample demo_loader 1 = Inr (Some smp)"
    using th[of 1] by (simp add: demo_defs atLeastAtMost_upt upt_rec)
  have "\<not> (\<exists>smp. anchorSample demo_loader 5 = Inr (Some smp))"
    using th[of 5] by (simp add: demo_defs)
  with th[of 5] have c: "anchorSample demo_loader 5 = Inr None" by blast
  have d: "\<exists>smp. anchorSample demo_gap_loader 1 = Inr (Some smp)"
    using tg[of 1] by (simp add: demo_gap_loader_def demo_defs atLeastAtMost_upt upt_rec)
  have "\<not> (\<exists>smp. anchorSample demo_gap_loader 2 = Inr (Some smp))"
    using tg[of 2] by (simp add: demo_gap_loader_def demo_defs atLeastAtMost_upt upt_rec)
  with tg[of 2] have e: "anchorSample demo_gap_loader 2 = Inr None" by blast
  have "\<not> (\<exists>smp. anchorSample demo_gap_loader 3 = Inr (Some smp))"
    using tg[of 3] by (simp add: demo_gap_loader_def demo_defs atLeastAtMost_upt upt_rec)
  with tg[of 3] have f: "anchorSample demo_gap_loader 3 = Inr None" by blast
  from demo_wf demo_gap_wf a b c d e f show ?thesis by blast
qed

subsection \<open>Labels\<close>

text \<open>
  Claim C1. A sample pushed for anchor \<open>i\<close> carries \<open>S * h\<close> labels, and for the symbol
  at position \<open>s\<close> of the symbol list and every offset \<open>off\<close> from 1 to \<open>h\<close> the label at
  \<open>s * h + (off - 1)\<close> (asset-major, offset-minor) is 1 if the close of that symbol at
  \<open>i + off\<close> is strictly greater than its close at \<open>i\<close>, and 0 otherwise: \<open>jgt\<close> is the
  strict comparison of numbers, false on equal closes.
\<close>

theorem label_is_strict_rise:
  assumes smp: "anchorSample ldr i = Inr (Some (inp, out, d))"
    and s: "s < length (symbols ldr)"
    and off: "1 \<le> off" "off \<le> forecastHorizon ldr"
  shows "length out = length (symbols ldr) * forecastHorizon ldr \<and>
    (\<exists>arr. perSymbolSeries ldr (symbols ldr ! s) = Some arr \<and> i + off < length arr \<and>
       out ! (s * forecastHorizon ldr + (off - 1)) =
         (if jgt (s_close (arr ! (i + off))) (s_close (arr ! i)) then 1 else 0))"
proof -
  let ?h = "forecastHorizon ldr"
  from anchorSample_SomeD(1)[OF smp] obtain labels
    where m: "mapE (symbolLabels ldr i) (symbols ldr) = Inr labels" and out: "out = concat labels"
    by (auto simp: sampleOutput_def split: sum.splits)
  have len: "length labels = length (symbols ldr)" by (rule mapE_length[OF m])
  have each: "symbolLabels ldr i (symbols ldr ! j) = Inr (labels ! j)" if "j < length (symbols ldr)" for j
    by (rule mapE_nth[OF m that])
  have uni: "\<forall>l \<in> set labels. length l = ?h"
  proof
    fix l assume "l \<in> set labels"
    then obtain j where j: "j < length labels" "l = labels ! j" by (auto simp: in_set_conv_nth)
    with each[of j] len show "length l = ?h" by (auto elim: symbolLabels_InrD)
  qed
  from each[OF s] obtain arr where arr: "perSymbolSeries ldr (symbols ldr ! s) = Some arr"
    and nth: "i + off < length arr \<and>
        labels ! s ! (off - 1) = (if jgt (s_close (arr ! (i + off))) (s_close (arr ! i)) then 1 else 0)"
    using off by (auto elim!: symbolLabels_InrD)
  have k: "off - 1 < ?h" using off by simp
  have "out ! (s * ?h + (off - 1)) = labels ! s ! (off - 1)"
    unfolding out using uni s k len by (intro concat_nth_uniform) simp_all
  moreover have "length out = length (symbols ldr) * ?h"
    unfolding out using concat_length_uniform[OF uni] len by simp
  ultimately show ?thesis using arr nth by auto
qed

theorem label_is_strict_rise_witness:
  "anchorSample demo_loader 2 =
     Inr (Some ([[Num 0, Num (2 / 5), Num 0, Num 0], [Num 0, Num 0, Num 1, Num (1 / 3)]],
                [1, 0], ''2024-01-03'')) \<and>
   s_close (demo_series_A ! 3) = Num 12 \<and> s_close (demo_series_A ! 2) = Num 9 \<and>
   [1, 0 :: int] ! (0 * 1 + (1 - 1)) = 1 \<and>
   s_close (demo_series_B ! 3) = Num 6 \<and> s_close (demo_series_B ! 2) = Num 6 \<and>
   [1, 0 :: int] ! (1 * 1 + (1 - 1)) = 0"
proof -
  have sA: "0 < length (symbols demo_loader)" and sB: "1 < length (symbols demo_loader)"
    and o1: "(1::nat) \<le> 1" and o2: "1 \<le> forecastHorizon demo_loader"
    by (simp_all add: demo_defs)
  have A: "perSymbolSeries demo_loader (symbols demo_loader ! 0) = Some demo_series_A"
    and B: "perSymbolSeries demo_loader (symbols demo_loader ! 1) = Some demo_series_B"
    and h: "forecastHorizon demo_loader = 1"
    by (simp_all add: demo_loader_def demo_cfg_def DataLoader_def)
  from label_is_strict_rise[OF demo_anchor_2 sA o1 o2] A h
  have a: "[1, 0 :: int] ! (0 * 1 + (1 - 1)) =
      (if jgt (s_close (demo_series_A ! (2 + 1))) (s_close (demo_series_A ! 2)) then 1 else 0)"
    by auto
  from label_is_strict_rise[OF demo_anchor_2 sB o1 o2] B h
  have b: "[1, 0 :: int] ! (1 * 1 + (1 - 1)) =
      (if jgt (s_close (demo_series_B ! (2 + 1))) (s_close (demo_series_B ! 2)) then 1 else 0)"
    by auto
  have c: "s_close (demo_series_A ! 3) = Num 12" "s_close (demo_series_A ! 2) = Num 9"
    "s_close (demo_series_B ! 3) = Num 6" "s_close (demo_series_B ! 2) = Num 6"
    by (simp_all add: demo_series_A_def demo_series_B_def mkSlot_def)
  from a b c demo_anchor_2 show ?thesis by simp
qed

section \<open>Properties of the split\<close>







text \<open>
  In a well-formed loaded state with a window of at least one day, a train percentage
  between 0 and 100 and at least one valid anchor, \<open>prepareDataset\<close> returns.
\<close>

lemma collectSamples_mem:
  "collectSamples ldr is = Inr smps \<Longrightarrow> smp \<in> set smps \<Longrightarrow>
   \<exists>i \<in> set is. anchorSample ldr i = Inr (Some smp)"
proof (induction "is" arbitrary: smps)
  case Nil
  then show ?case by simp
next
  case (Cons i rest)
  from Cons.prems(1) obtain r later where r: "anchorSample ldr i = Inr r"
    and l: "collectSamples ldr rest = Inr later"
    and s: "smps = (case r of None \<Rightarrow> later | Some x \<Rightarrow> x # later)"
    by (auto split: sum.splits)
  show ?case
  proof (cases "smp \<in> set later")
    case True
    with Cons.IH[OF l] show ?thesis by auto
  next
    case False
    with Cons.prems(2) s have "r = Some smp" by (cases r) auto
    with r show ?thesis by simp
  qed
qed

lemma sampleInput_length:
  assumes "anchorSample ldr i = Inr (Some (inp, out, d))"
  shows "length inp = sequenceLength ldr"
proof -
  from anchorSample_SomeD(2,4)[OF assms]
  have m: "mapE (inputRow ldr) [nat (int i - int (sequenceLength ldr) + 1)..<Suc i] = Inr inp"
    and st: "0 \<le> int i - int (sequenceLength ldr) + 1"
    by (simp_all add: sampleInput_def)
  from mapE_length[OF m] have "length inp = Suc i - nat (int i - int (sequenceLength ldr) + 1)"
    by (simp del: upt_Suc)
  with st show ?thesis by arith
qed

lemma trainCountOf_range:
  assumes "0 \<le> p" "p \<le> 100"
  shows "0 \<le> trainCountOf p n \<and> trainCountOf p n \<le> int n"
proof -
  have a: "0 \<le> p / 100 * real n" using assms by simp
  have "p / 100 * real n \<le> 1 * real n" using assms by (intro mult_right_mono) simp_all
  then have b: "p / 100 * real n \<le> real_of_int (int n)" by simp
  from a have "round (0::real) \<le> round (p / 100 * real n)" by (rule round_mono)
  moreover from b have "round (p / 100 * real n) \<le> round (real_of_int (int n))" by (rule round_mono)
  ultimately show ?thesis by (simp add: trainCountOf_def)
qed

lemma prepareDataset_returns:
  assumes wf: "wf_loader ldr" and rw: "raw ldr \<noteq> None"
    and L: "0 < sequenceLength ldr"
    and p: "0 \<le> p" "p \<le> 100"
    and some: "anchorSample ldr i = Inr (Some smp)"
  shows "\<exists>r. prepareDataset ldr p = Inr r"
proof -
  let ?D = "length (dates ldr)"
  define smps where "smps = List.map_filter (\<lambda>i. projr (anchorSample ldr i)) [0..<?D]"
  have c: "collectSamples ldr [0..<?D] = Inr smps"
    unfolding smps_def by (rule collectSamples_wf[OF wf])
  obtain inp out d where smp: "smp = (inp, out, d)" by (cases smp)
  from anchorSample_SomeD(5)[OF some[unfolded smp]] have i: "i < ?D" by simp
  have pr: "projr (anchorSample ldr i) = Some smp" using some by simp
  have "smp \<in> set smps"
  proof -
    have "i \<in> set (filter (\<lambda>x. projr (anchorSample ldr x) \<noteq> None) [0..<?D])"
      using i pr smp by auto
    then have "(the \<circ> (\<lambda>i. projr (anchorSample ldr i))) i \<in> set smps"
      unfolding smps_def List.map_filter_def set_map by (rule imageI)
    then show ?thesis using pr by simp
  qed
  then obtain s0 rest where ne: "smps = s0 # rest" by (cases smps) auto
  obtain inp0 out0 d0 where s0: "s0 = (inp0, out0, d0)" by (cases s0)
  from collectSamples_mem[OF c, of s0] ne obtain i0 where "anchorSample ldr i0 = Inr (Some (inp0, out0, d0))"
    unfolding s0 by auto
  from sampleInput_length[OF this] L obtain row0 rows0 where inp0: "inp0 = row0 # rows0"
    by (cases inp0) auto
  have t3: "tensor3d (map fst smps) = Inr (map fst smps)"
    by (simp add: tensor3d_def ne s0 inp0)
  from trainCountOf_range[OF p, of "length smps"]
  have lo: "0 \<le> trainCountOf p (length smps)" and hi: "trainCountOf p (length smps) \<le> int (length smps)"
    by simp_all
  have sl1: "\<And>xs :: jsnum list list list. length xs = length smps \<Longrightarrow>
      \<exists>ys. tf_slice0 xs 0 (trainCountOf p (length smps)) = Inr ys"
    and sl2: "\<And>xs :: jsnum list list list. length xs = length smps \<Longrightarrow>
      \<exists>ys. tf_slice0 xs (trainCountOf p (length smps)) (int (length smps) - trainCountOf p (length smps)) = Inr ys"
    and sl3: "\<And>xs :: int list list. length xs = length smps \<Longrightarrow>
      \<exists>ys. tf_slice0 xs 0 (trainCountOf p (length smps)) = Inr ys"
    and sl4: "\<And>xs :: int list list. length xs = length smps \<Longrightarrow>
      \<exists>ys. tf_slice0 xs (trainCountOf p (length smps)) (int (length smps) - trainCountOf p (length smps)) = Inr ys"
    using lo hi by (auto simp: tf_slice0_def Let_def)
  obtain Xtr where 1: "tf_slice0 (map fst smps) 0 (trainCountOf p (length smps)) = Inr Xtr"
    using sl1[of "map fst smps"] by auto
  obtain Xte where 2: "tf_slice0 (map fst smps) (trainCountOf p (length smps))
      (int (length smps) - trainCountOf p (length smps)) = Inr Xte"
    using sl2[of "map fst smps"] by auto
  obtain ytr where 3: "tf_slice0 (map (fst \<circ> snd) smps) 0 (trainCountOf p (length smps)) = Inr ytr"
    using sl3[of "map (fst \<circ> snd) smps"] by auto
  obtain yte where 4: "tf_slice0 (map (fst \<circ> snd) smps) (trainCountOf p (length smps))
      (int (length smps) - trainCountOf p (length smps)) = Inr yte"
    using sl4[of "map (fst \<circ> snd) smps"] by auto
  from rw obtain rws where "raw ldr = Some rws" by auto
  moreover have "smps \<noteq> []" using ne by simp
  ultimately show ?thesis
    by (simp add: prepareDataset_def Let_def c t3 1 2 3 4)
qed

subsection \<open>The chronological split\<close>











section \<open>Properties of loading\<close>

subsection \<open>Lookup and pivot\<close>

lemma foldl_upd_lookup:
  "foldl (\<lambda>m s. m(s \<mapsto> f s)) m0 xs x = (if x \<in> set xs then Some (f x) else m0 x)"
  by (induction xs arbitrary: m0) auto

lemma foldl_upd_map_of:
  "foldl (\<lambda>m r. m(kf r \<mapsto> vf r)) m0 rows = m0 ++ map_of (rev (map (\<lambda>r. (kf r, vf r)) rows))"
proof (induction rows arbitrary: m0)
  case Nil
  show ?case by simp
next
  case (Cons r rows)
  have "foldl (\<lambda>m r. m(kf r \<mapsto> vf r)) m0 (r # rows) =
        foldl (\<lambda>m r. m(kf r \<mapsto> vf r)) (m0(kf r \<mapsto> vf r)) rows"
    by (simp only: foldl_Cons)
  also have "\<dots> = m0(kf r \<mapsto> vf r) ++ map_of (rev (map (\<lambda>r. (kf r, vf r)) rows))"
    by (rule Cons.IH)
  also have "\<dots> = m0 ++ map_of (rev (map (\<lambda>r. (kf r, vf r)) (r # rows)))"
    by (rule ext) (simp add: map_add_def split: option.splits)
  finally show ?case .
qed

lemma buildLookup_map_of:
  "buildLookup rows = map_of (rev (map (\<lambda>r. (lookupKey (Symbol r) (Date r), (Open r, Close r))) rows))"
  unfolding buildLookup_def by (simp add: foldl_upd_map_of)



lemma buildLookup_last:
  assumes "\<forall>r' \<in> set post. lookupKey (Symbol r') (Date r') \<noteq> lookupKey (Symbol r) (Date r)"
  shows "buildLookup (pre @ r # post) (lookupKey (Symbol r) (Date r)) = Some (Open r, Close r)"
proof -
  let ?kv = "\<lambda>r. (lookupKey (Symbol r) (Date r), (Open r, Close r))"
  have "map_of (rev (map ?kv post)) (lookupKey (Symbol r) (Date r)) = None"
    using assms by (force simp: map_of_eq_None_iff)
  then show ?thesis
    unfolding buildLookup_map_of by (simp add: map_add_def)
qed

lemma set_dedup: "set (dedup xs) = set xs"
  by (simp add: dedup_def)


lemma foldE_normalizers:
  assumes "\<forall>symb \<in> set syms. series symb \<noteq> None"
  shows "foldE (\<lambda>m symb. case series symb of
                          None \<Rightarrow> Inl TypeError
                        | Some arr \<Rightarrow> Inr (m(symb \<mapsto> computeNormalizer arr))) m0 syms =
         Inr (foldl (\<lambda>m symb. m(symb \<mapsto> computeNormalizer (the (series symb)))) m0 syms)"
  using assms by (induction syms arbitrary: m0) auto

lemma loadFromCSVText_unfold:
  "loadFromCSVText toISO time ldr data =
     (let rows = cleanRows toISO data;
          syms = sort (dedup (map Symbol rows));
          ds = sort_key time (dedup (map Date rows))
      in if rows = [] then Inl NoValidRows
         else Inr (ldr\<lparr>symbols := syms, dates := ds,
                perSymbolSeries :=
                  (\<lambda>symb. if symb \<in> set syms
                           then Some (pivotSeries (buildLookup rows) ds symb) else None),
                normalizers :=
                  (\<lambda>symb. if symb \<in> set syms
                           then Some (computeNormalizer (pivotSeries (buildLookup rows) ds symb))
                           else None),
                raw := Some rows,
                logged := logged ldr @ (if length syms \<noteq> 10 then [LogWarning (length syms)] else []) @
                          [LogParsed (length rows) (length syms) (length ds)]\<rparr>))"
proof -
  define rows where "rows = cleanRows toISO data"
  define syms where "syms = sort (dedup (map Symbol rows))"
  define ds where "ds = sort_key time (dedup (map Date rows))"
  define series where
    "series = foldl (\<lambda>m symb. m(symb \<mapsto> pivotSeries (buildLookup rows) ds symb)) Map.empty syms"
  have se: "series = (\<lambda>symb. if symb \<in> set syms
                           then Some (pivotSeries (buildLookup rows) ds symb) else None)"
    unfolding series_def by (rule ext) (simp add: foldl_upd_lookup)
  have "\<forall>symb \<in> set syms. series symb \<noteq> None" by (simp add: se)
  then have "foldE (\<lambda>m symb. case series symb of
                          None \<Rightarrow> Inl TypeError
                        | Some arr \<Rightarrow> Inr (m(symb \<mapsto> computeNormalizer arr))) Map.empty syms =
         Inr (foldl (\<lambda>m symb. m(symb \<mapsto> computeNormalizer (the (series symb)))) Map.empty syms)"
    by (rule foldE_normalizers)
  also have "foldl (\<lambda>m symb. m(symb \<mapsto> computeNormalizer (the (series symb)))) Map.empty syms =
      (\<lambda>symb. if symb \<in> set syms
               then Some (computeNormalizer (pivotSeries (buildLookup rows) ds symb)) else None)"
    by (rule ext) (simp add: foldl_upd_lookup se)
  finally have no: "foldE (\<lambda>m symb. case series symb of
                          None \<Rightarrow> Inl TypeError
                        | Some arr \<Rightarrow> Inr (m(symb \<mapsto> computeNormalizer arr))) Map.empty syms =
         Inr (\<lambda>symb. if symb \<in> set syms
               then Some (computeNormalizer (pivotSeries (buildLookup rows) ds symb)) else None)" .
  have "loadFromCSVText toISO time ldr data =
      (if rows = [] then Inl NoValidRows
       else case foldE (\<lambda>m symb. case series symb of
                          None \<Rightarrow> Inl TypeError
                        | Some arr \<Rightarrow> Inr (m(symb \<mapsto> computeNormalizer arr))) Map.empty syms of
              Inl e \<Rightarrow> Inl e
            | Inr norms \<Rightarrow>
                Inr (ldr\<lparr>symbols := syms, dates := ds, perSymbolSeries := series,
                         normalizers := norms, raw := Some rows,
                         logged := logged ldr @ (if length syms \<noteq> 10 then [LogWarning (length syms)] else []) @
                                   [LogParsed (length rows) (length syms) (length ds)]\<rparr>))"
    unfolding loadFromCSVText_def Let_def series_def syms_def ds_def rows_def cleanRows_def
    by simp
  then show ?thesis
    unfolding no Let_def rows_def[symmetric] syms_def[symmetric] ds_def[symmetric]
    by (simp add: se)
qed

lemma load_InrD:
  assumes "loadFromCSVText toISO time ldr0 data = Inr ldr"
  shows "cleanRows toISO data \<noteq> []"
    and "symbols ldr = sort (dedup (map Symbol (cleanRows toISO data)))"
    and "dates ldr = sort_key time (dedup (map Date (cleanRows toISO data)))"
    and "perSymbolSeries ldr symb =
       (if symb \<in> set (symbols ldr)
        then Some (pivotSeries (buildLookup (cleanRows toISO data)) (dates ldr) symb) else None)"
    and "normalizers ldr symb =
       (if symb \<in> set (symbols ldr)
        then Some (computeNormalizer (pivotSeries (buildLookup (cleanRows toISO data)) (dates ldr) symb))
        else None)"
    and "raw ldr = Some (cleanRows toISO data)"
    and "logged ldr = logged ldr0 @ (if length (symbols ldr) \<noteq> 10 then [LogWarning (length (symbols ldr))] else []) @
          [LogParsed (length (cleanRows toISO data)) (length (symbols ldr)) (length (dates ldr))]"
  using assms unfolding loadFromCSVText_unfold
  by (auto simp: Let_def split: if_splits)











lemma length_pivotSeries: "length (pivotSeries lk ds symb) = length ds"
  by (simp add: pivotSeries_def)

lemma loaded_wf:
  assumes "loadFromCSVText toISO time ldr0 data = Inr ldr"
  shows "wf_loader ldr"
  unfolding wf_loader_def
  by (simp add: load_InrD(4,5)[OF assms] length_pivotSeries)

lemma loaded_dates_sorted:
  assumes "loadFromCSVText toISO time ldr0 data = Inr ldr"
  shows "sorted (map time (dates ldr))"
  by (simp add: load_InrD(3)[OF assms])

subsection \<open>Normalizers\<close>


subsection \<open>Loading the worked example\<close>













subsection \<open>The warning on the number of symbols\<close>






subsection \<open>Rows with one symbol and date\<close>

text \<open>
  When no later row has the lookup key of a row, the series of the row's symbol holds
  the row's open and close at the row's date: of several rows with one symbol and date
  the last one is kept.
\<close>

lemma last_row_wins_without_key_collision:
  assumes ld: "loadFromCSVText toISO time ldr0 data = Inr ldr"
    and rows: "cleanRows toISO data = pre @ r # post"
    and nc: "\<forall>r' \<in> set post. lookupKey (Symbol r') (Date r') \<noteq> lookupKey (Symbol r) (Date r)"
  shows "\<exists>arr j. perSymbolSeries ldr (Symbol r) = Some arr \<and> j < length arr \<and>
           dates ldr ! j = Date r \<and>
           arr ! j = \<lparr>s_date = Date r, s_open = Open r, s_close = Close r\<rparr>"
proof -
  have r: "r \<in> set (cleanRows toISO data)" by (simp add: rows)
  then have s: "Symbol r \<in> set (symbols ldr)"
    by (simp add: load_InrD(2)[OF ld] set_dedup)
  have "Date r \<in> set (dates ldr)"
    using r by (simp add: load_InrD(3)[OF ld] set_dedup)
  then obtain j where j: "j < length (dates ldr)" "dates ldr ! j = Date r"
    by (auto simp: in_set_conv_nth)
  let ?arr = "pivotSeries (buildLookup (cleanRows toISO data)) (dates ldr) (Symbol r)"
  have a: "perSymbolSeries ldr (Symbol r) = Some ?arr"
    using load_InrD(4)[OF ld, of "Symbol r"] s by simp
  have l: "buildLookup (cleanRows toISO data) (lookupKey (Symbol r) (Date r)) = Some (Open r, Close r)"
    unfolding rows by (rule buildLookup_last[OF nc])
  have "?arr ! j = \<lparr>s_date = Date r, s_open = Open r, s_close = Close r\<rparr>"
    using j l by (simp add: pivotSeries_def)
  with a j show ?thesis by (auto simp: length_pivotSeries)
qed

text \<open>
  Claim C10 at the failing input: two rows have symbol \<open>X\<close> and date \<open>Y||tbd\<close>, the last
  of them with open 5 and close 6, and a later row has symbol \<open>X||Y\<close> and date \<open>tbd\<close>,
  which gives the same lookup key \<open>X||Y||tbd\<close>. The series of \<open>X\<close> holds 3 and 4 at
  that date, the values of the row of the other symbol.
\<close>

theorem duplicate_rows_key_collision:
  "map_sum id (\<lambda>l. (symbols l, dates l, perSymbolSeries l ''X''))
     (loadFromCSVText (\<lambda>_. None) (\<lambda>_. 0) (DataLoader demo_cfg) collide_rows)
   = Inr ([''X'', ''X||Y''], [''Y||tbd'', ''tbd''],
          Some [\<lparr>s_date = ''Y||tbd'', s_open = Num 3, s_close = Num 4\<rparr>,
                \<lparr>s_date = ''tbd'', s_open = NaN, s_close = NaN\<rparr>])"
proof -
  have v: "filter validRow collide_rows = collide_rows"
    by (simp add: collide_rows_def validRow_def)
  have n: "map (\<lambda>r. r\<lparr>Date := normalizeDate (\<lambda>_. None) (Date r)\<rparr>) collide_rows = collide_rows"
    by (simp add: collide_rows_def normalizeDate_def)
  have s: "sort (dedup (map Symbol collide_rows)) = [''X'', ''X||Y'']"
    by (simp add: collide_rows_def dedup_def)
  have d: "sort_key (\<lambda>_. 0::int) (dedup (map Date collide_rows)) = [''Y||tbd'', ''tbd'']"
    by (simp add: collide_rows_def dedup_def)
  have p: "pivotSeries (buildLookup collide_rows) [''Y||tbd'', ''tbd''] ''X'' =
      [\<lparr>s_date = ''Y||tbd'', s_open = Num 3, s_close = Num 4\<rparr>,
       \<lparr>s_date = ''tbd'', s_open = NaN, s_close = NaN\<rparr>]"
    by (simp add: pivotSeries_def buildLookup_def collide_rows_def lookupKey_def)
  have ne: "collide_rows \<noteq> []" by (simp add: collide_rows_def)
  show ?thesis
    unfolding loadFromCSVText_def Let_def v n s d
    by (simp add: ne p)
qed

end
